theory Spec2Isabelle
  imports
    Main
    "HOL-Library.Multiset"
    "HOL-Library.List_Lexorder"
    "HOL-Library.Char_ord"
    "HOL-Library.Product_Lexorder"
begin

section \<open>py-check-imports: unused and duplicate imports of a Python file\<close>

text \<open>
  A shallow embedding of \<^verbatim>\<open>py_check_imports.py\<close>. Python strings are \<open>string\<close>,
  Python integers are \<open>int\<close>, a raised exception is the \<open>Inl\<close> branch of a sum, and the
  mutable sets, dictionaries and lists of the source are passed as explicit state.
  Strings and tuples are ordered lexicographically, as Python compares them.
\<close>

subsection \<open>The syntax tree\<close>

text \<open>
  The shape of \<^verbatim>\<open>ast\<close> trees the program looks at. \<open>Import\<close> and \<open>ImportFrom\<close>
  carry \<^verbatim>\<open>lineno\<close> (and \<^verbatim>\<open>module\<close>) and their \<^verbatim>\<open>names\<close>; \<open>Name\<close> carries its
  \<^verbatim>\<open>id\<close>. \<open>Attribute\<close> and \<open>Constant\<close> are the two further classes for which the visitor
  of line 57 has a method of its own (\<^verbatim>\<open>visit_Attribute\<close> of line 54, and \<^verbatim>\<open>visit_Constant\<close>,
  which \<^verbatim>\<open>ast.NodeVisitor\<close> defines). \<open>Node\<close> is every other node class (modules, function
  and class definitions, calls, operators, ...). \<open>Attribute\<close> and \<open>Node\<close> carry their
  children in the order of \<^verbatim>\<open>ast.iter_child_nodes\<close>; a constant has none.

  The \<^verbatim>\<open>alias\<close> children of an import and the context child of a name are leaves of
  classes that the loop over \<^verbatim>\<open>ast.walk\<close> does nothing at, so \<open>iter_child_nodes\<close> does not
  list them. The visitor does call \<^verbatim>\<open>visit\<close> on every \<^verbatim>\<open>alias\<close> of an import;
  \<open>alias_nodes\<close> are these children, each a leaf of a class without a visitor method.
\<close>

datatype import_alias = Alias (name: string) (asname: "string option")

datatype node =
    Import int "import_alias list"
  | ImportFrom int "string option" "import_alias list"
  | Name string
  | Attribute "node list"
  | Constant
  | Node "node list"

fun iter_child_nodes :: "node \<Rightarrow> node list" where
  "iter_child_nodes (Node cs) = cs"
| "iter_child_nodes (Attribute cs) = cs"
| "iter_child_nodes Constant = []"
| "iter_child_nodes (Import l ns) = []"
| "iter_child_nodes (ImportFrom l m ns) = []"
| "iter_child_nodes (Name i) = []"

definition alias_nodes :: "import_alias list \<Rightarrow> node list" where
  "alias_nodes names = map (\<lambda>a. Node []) names"

text \<open>
  \<^verbatim>\<open>ast.walk\<close> of the standard library: a queue, \<^verbatim>\<open>popleft\<close> takes the next node,
  \<^verbatim>\<open>extend\<close> puts its children at the end. \<open>walk_todo\<close> is the loop on the queue.
\<close>

function walk_todo :: "node list \<Rightarrow> node list" where
  "walk_todo [] = []"
| "walk_todo (n # todo) = n # walk_todo (todo @ iter_child_nodes n)"
  by pat_completeness auto
termination
  apply (relation "measure (size_list size)")
   apply simp
  subgoal for n todo by (cases n) simp_all
  done

definition walk :: "node \<Rightarrow> node list" where
  "walk tree = walk_todo [tree]"

subsection \<open>The import extractor (lines 23 to 46)\<close>

text \<open>The three collections the loop over \<^verbatim>\<open>ast.walk(tree)\<close> fills. The dictionary
  \<^verbatim>\<open>import_statements\<close> keeps its keys in insertion order, and that order is the order
  of the duplicate findings, so it is an association list.\<close>

record import_state =
  "imports" :: "string set"
  import_aliases :: "string \<rightharpoonup> int \<times> string"
  import_statements :: "(string \<times> int list) list"

definition empty_state :: import_state where
  "empty_state = \<lparr>imports = {}, import_aliases = Map.empty, import_statements = []\<rparr>"

text \<open>\<^verbatim>\<open>alias.asname\<close> and \<^verbatim>\<open>node.module\<close> are tested for truth: \<^verbatim>\<open>None\<close> and the
  empty string are false, so both take the \<^verbatim>\<open>else\<close> branch below.\<close>

text \<open>\<^verbatim>\<open>s.split(".")[0]\<close>: the part of \<open>s\<close> before its first dot.\<close>

definition first_segment :: "string \<Rightarrow> string" where
  "first_segment s = takeWhile (\<lambda>c. c \<noteq> CHR ''.'') s"

definition as_suffix :: "import_alias \<Rightarrow> string" where
  "as_suffix a = (case asname a of
       None \<Rightarrow> []
     | Some s \<Rightarrow> if s \<noteq> [] then '' as '' @ s else [])"

definition import_name :: "import_alias \<Rightarrow> string" where
  "import_name a = (case asname a of
       None \<Rightarrow> first_segment (name a)
     | Some s \<Rightarrow> if s \<noteq> [] then s else first_segment (name a))"

definition import_stmt_str :: "import_alias \<Rightarrow> string" where
  "import_stmt_str a = ''import '' @ name a @ as_suffix a"

definition from_name :: "import_alias \<Rightarrow> string" where
  "from_name a = (case asname a of
       None \<Rightarrow> name a
     | Some s \<Rightarrow> if s \<noteq> [] then s else name a)"

definition module_str :: "string option \<Rightarrow> string" where
  "module_str m = (case m of None \<Rightarrow> [] | Some s \<Rightarrow> if s \<noteq> [] then s else [])"

definition from_stmt_str :: "string option \<Rightarrow> import_alias \<Rightarrow> string" where
  "from_stmt_str m a = ''from '' @ module_str m @ '' import '' @ name a @ as_suffix a"

text \<open>\<^verbatim>\<open>import_statements[stmt_str].append(lineno)\<close> on a \<^verbatim>\<open>defaultdict(list)\<close>: a new
  key goes to the end with a one-element list, a known key has the line appended.\<close>

fun append_line :: "(string \<times> int list) list \<Rightarrow> string \<Rightarrow> int \<Rightarrow> (string \<times> int list) list" where
  "append_line [] k l = [(k, [l])]"
| "append_line ((k', ls) # kvs) k l =
     (if k' = k then (k', ls @ [l]) # kvs else (k', ls) # append_line kvs k l)"

text \<open>The three statements at the end of both inner loops, for one binding
  (bound name, line, statement text).\<close>

definition record_binding :: "string \<times> int \<times> string \<Rightarrow> import_state \<Rightarrow> import_state" where
  "record_binding b st = (case b of (nm, lineno, stmt_str) \<Rightarrow>
     st\<lparr>imports := insert nm (imports st),
        import_aliases := (import_aliases st)(nm \<mapsto> (lineno, stmt_str)),
        import_statements := append_line (import_statements st) stmt_str lineno\<rparr>)"

text \<open>The bindings the loop body records at one node, in the order of \<^verbatim>\<open>node.names\<close>.\<close>

fun bindings_of :: "node \<Rightarrow> (string \<times> int \<times> string) list" where
  "bindings_of (Import lineno names) =
     map (\<lambda>a. (import_name a, lineno, import_stmt_str a)) names"
| "bindings_of (ImportFrom lineno m names) =
     map (\<lambda>a. (from_name a, lineno, from_stmt_str m a)) names"
| "bindings_of (Name i) = []"
| "bindings_of (Attribute cs) = []"
| "bindings_of Constant = []"
| "bindings_of (Node cs) = []"

definition visit_import :: "node \<Rightarrow> import_state \<Rightarrow> import_state" where
  "visit_import n st = fold record_binding (bindings_of n) st"

definition extract_imports :: "node \<Rightarrow> import_state" where
  "extract_imports tree = fold visit_import (walk tree) empty_state"

subsection \<open>Exceptions\<close>

text \<open>Exceptions, each with its \<^verbatim>\<open>str(e)\<close> where the program uses it.
  \<open>UnicodeDecodeError\<close> is what \<^verbatim>\<open>f.read()\<close> raises on bytes that are not UTF-8,
  \<open>RecursionError\<close> what the interpreter raises when the nesting of calls exceeds its
  recursion limit; \<open>OtherError\<close> stands for any further class outside the two \<^verbatim>\<open>except\<close>
  clauses (\<^verbatim>\<open>IsADirectoryError\<close>, \<^verbatim>\<open>MemoryError\<close>, ...).\<close>

datatype exn =
    FileNotFoundError string
  | PermissionError string
  | SyntaxError string
  | UnicodeDecodeError string
  | OtherError string
  | KeyError string
  | TypeError
  | RecursionError

subsection \<open>The usage collector (lines 48 to 57)\<close>

text \<open>
  \<^verbatim>\<open>ImportVisitor\<close>, a subclass of \<^verbatim>\<open>ast.NodeVisitor\<close>. \<^verbatim>\<open>visit\<close> calls the method
  named after the class of the node, or \<^verbatim>\<open>generic_visit\<close> when there is none.
  \<^verbatim>\<open>visit_Name\<close> adds the identifier and does not descend; \<^verbatim>\<open>visit_Attribute\<close> calls
  \<^verbatim>\<open>generic_visit\<close>, and so does the \<^verbatim>\<open>visit_Constant\<close> of \<^verbatim>\<open>ast.NodeVisitor\<close> (the class
  has none of the old methods \<^verbatim>\<open>visit_Num\<close>, \<^verbatim>\<open>visit_Str\<close>, ... that it looks for first).
  \<^verbatim>\<open>generic_visit\<close> calls \<^verbatim>\<open>visit\<close> on each child in order; \<open>visit_children\<close> is its loop,
  given the children. The set \<^verbatim>\<open>used\<close> is the state.

  These are Python functions that call each other down the tree, and the interpreter raises
  \<^verbatim>\<open>RecursionError\<close> at a call for which the stack of calls has no room left under its
  recursion limit. Line 57 is outside the \<^verbatim>\<open>try\<close> of lines 14 to 21, so the exception
  leaves the analyzer. The first argument \<open>frames\<close> of each function is the number of nested
  calls for which there is still room, the call of the function itself included: with none
  the call raises, otherwise the function runs and what it calls has one less.
\<close>

fun visit :: "nat \<Rightarrow> node \<Rightarrow> string set \<Rightarrow> exn + string set"
  and visit_Name :: "nat \<Rightarrow> string \<Rightarrow> string set \<Rightarrow> exn + string set"
  and visit_Attribute :: "nat \<Rightarrow> node list \<Rightarrow> string set \<Rightarrow> exn + string set"
  and visit_Constant :: "nat \<Rightarrow> string set \<Rightarrow> exn + string set"
  and generic_visit :: "nat \<Rightarrow> node list \<Rightarrow> string set \<Rightarrow> exn + string set"
  and visit_children :: "nat \<Rightarrow> node list \<Rightarrow> string set \<Rightarrow> exn + string set" where
  "visit 0 n used = Inl RecursionError"
| "visit (Suc frames) (Name i) used = visit_Name frames i used"
| "visit (Suc frames) (Attribute cs) used = visit_Attribute frames cs used"
| "visit (Suc frames) Constant used = visit_Constant frames used"
| "visit (Suc frames) (Node cs) used = generic_visit frames cs used"
| "visit (Suc frames) (Import l ns) used = generic_visit frames (alias_nodes ns) used"
| "visit (Suc frames) (ImportFrom l m ns) used = generic_visit frames (alias_nodes ns) used"
| "visit_Name 0 i used = Inl RecursionError"
| "visit_Name (Suc frames) i used = Inr (insert i used)"
| "visit_Attribute 0 cs used = Inl RecursionError"
| "visit_Attribute (Suc frames) cs used = generic_visit frames cs used"
| "visit_Constant 0 used = Inl RecursionError"
| "visit_Constant (Suc frames) used = generic_visit frames [] used"
| "generic_visit 0 cs used = Inl RecursionError"
| "generic_visit (Suc frames) cs used = visit_children frames cs used"
| "visit_children frames [] used = Inr used"
| "visit_children frames (c # cs) used =
     (case visit frames c used of
        Inl e \<Rightarrow> Inl e
      | Inr used' \<Rightarrow> visit_children frames cs used')"

subsection \<open>Findings as dictionaries\<close>

datatype pyval = PyStr string | PyInt int | PyList "int list"

type_synonym pydict = "(string \<times> pyval) list"

text \<open>\<^verbatim>\<open>k in d\<close>.\<close>

definition has_key :: "string \<Rightarrow> pydict \<Rightarrow> bool" where
  "has_key k d = (k \<in> set (map fst d))"

definition unused_record :: "string \<Rightarrow> int \<Rightarrow> string \<Rightarrow> pydict" where
  "unused_record filename lineno stmt =
     [(''file'', PyStr filename), (''line'', PyInt lineno), (''import_statement'', PyStr stmt)]"

definition duplicate_record :: "string \<Rightarrow> int list \<Rightarrow> string \<Rightarrow> pydict" where
  "duplicate_record filename lines stmt =
     [(''file'', PyStr filename), (''lines'', PyList lines), (''import_statement'', PyStr stmt)]"

definition error_record :: "string \<Rightarrow> string \<Rightarrow> pydict" where
  "error_record filename msg = [(''file'', PyStr filename), (''error'', PyStr msg)]"

subsection \<open>The per-file analyzer (lines 11 to 74)\<close>

text \<open>What the body of the \<^verbatim>\<open>try\<close> (open, read, \<^verbatim>\<open>ast.parse\<close>) does for a file: it
  yields a tree or raises. The analyzer takes the order of iteration of a set and the room
  on the call stack at line 57 from the interpreter that runs it, as its first two
  arguments.\<close>

datatype outcome = Parsed node | Raises exn

text \<open>The loop of lines 61 to 65 over the names, \<^verbatim>\<open>import_aliases[name]\<close> raising
  \<^verbatim>\<open>KeyError\<close> on a missing key.\<close>

fun unused_results ::
  "string \<Rightarrow> (string \<rightharpoonup> int \<times> string) \<Rightarrow> string list \<Rightarrow> exn + pydict list" where
  "unused_results filename aliases [] = Inr []"
| "unused_results filename aliases (nm # nms) =
     (case aliases nm of
        None \<Rightarrow> Inl (KeyError nm)
      | Some (lineno, stmt) \<Rightarrow>
          (case unused_results filename aliases nms of
             Inl e \<Rightarrow> Inl e
           | Inr rs \<Rightarrow> Inr (unused_record filename lineno stmt # rs)))"

definition duplicate_results :: "string \<Rightarrow> (string \<times> int list) list \<Rightarrow> pydict list" where
  "duplicate_results filename stmts =
     map (\<lambda>(stmt, lines). duplicate_record filename lines stmt)
       (filter (\<lambda>(stmt, lines). length lines > 1) stmts)"

text \<open>
  Python does not fix the order in which \<^verbatim>\<open>for name in unused_imports\<close> runs through
  the set (for strings it changes with the hash seed of the process), so the order is a
  parameter \<open>iter\<close> of the analyzer; \<open>set_iteration\<close> is all that is known of it.
\<close>

definition set_iteration :: "(string set \<Rightarrow> string list) \<Rightarrow> bool" where
  "set_iteration iter = (\<forall>S. finite S \<longrightarrow> set (iter S) = S \<and> distinct (iter S))"

text \<open>Lines 23 to 74, what the analyzer does with the tree once the file has parsed: the
  extractor loop, the visitor, the difference of the two sets, and the two lists of
  findings. An exception of the visitor ends the function.\<close>

definition analyze_tree ::
  "(string set \<Rightarrow> string list) \<Rightarrow> nat \<Rightarrow> string \<Rightarrow> node \<Rightarrow> exn + (pydict list \<times> pydict list)" where
  "analyze_tree iter frames filename tree =
     (let st = extract_imports tree
      in case visit frames tree {} of
           Inl e \<Rightarrow> Inl e
         | Inr used \<Rightarrow>
             (let unused_imports = imports st - used
              in case unused_results filename (import_aliases st) (iter unused_imports) of
                   Inl e \<Rightarrow> Inl e
                 | Inr rs \<Rightarrow> Inr (rs, duplicate_results filename (import_statements st))))"

fun find_unused_and_duplicate_imports_in_file ::
  "(string set \<Rightarrow> string list) \<Rightarrow> nat \<Rightarrow> string \<Rightarrow> outcome
     \<Rightarrow> exn + (pydict list \<times> pydict list)" where
  "find_unused_and_duplicate_imports_in_file iter frames filename (Raises (FileNotFoundError msg)) =
     Inr ([error_record filename msg], [])"
| "find_unused_and_duplicate_imports_in_file iter frames filename (Raises (PermissionError msg)) =
     Inr ([error_record filename msg], [])"
| "find_unused_and_duplicate_imports_in_file iter frames filename (Raises (SyntaxError msg)) =
     Inr ([error_record filename (''SyntaxError: '' @ msg)], [])"
| "find_unused_and_duplicate_imports_in_file iter frames filename (Raises e) = Inl e"
| "find_unused_and_duplicate_imports_in_file iter frames filename (Parsed tree) =
     analyze_tree iter frames filename tree"

subsection \<open>Enumerating the files of a directory (lines 77 to 83)\<close>

definition endswith :: "string \<Rightarrow> string \<Rightarrow> bool" where
  "endswith s suf = (length suf \<le> length s \<and> drop (length s - length suf) s = suf)"

text \<open>\<^verbatim>\<open>os.path.join(root, file)\<close> of \<^verbatim>\<open>posixpath\<close> for two components.\<close>

definition path_join :: "string \<Rightarrow> string \<Rightarrow> string" where
  "path_join a b =
     (if take 1 b = ''/'' then b
      else if a = [] \<or> endswith a ''/'' then a @ b
      else a @ ''/'' @ b)"

text \<open>What the program asks of the file system: \<^verbatim>\<open>os.path.isdir\<close>, \<^verbatim>\<open>os.path.isfile\<close>,
  the triples (root, directories, files) that \<^verbatim>\<open>os.walk\<close> yields, and what opening,
  reading and parsing a file does.\<close>

record filesystem =
  isdir :: "string \<Rightarrow> bool"
  isfile :: "string \<Rightarrow> bool"
  os_walk :: "string \<Rightarrow> (string \<times> string list \<times> string list) list"
  read_and_parse :: "string \<Rightarrow> outcome"

definition find_python_files_in_directory :: "filesystem \<Rightarrow> string \<Rightarrow> string list" where
  "find_python_files_in_directory fs directory =
     concat (map (\<lambda>(root, dirs, files).
                    map (path_join root) (filter (\<lambda>file. endswith file ''.py'') files))
                 (os_walk fs directory))"

subsection \<open>The batch runner and the final sort (lines 86 to 128)\<close>

record accumulators =
  all_unused :: "pydict list"
  all_duplicates :: "pydict list"
  all_errors :: "pydict list"

definition no_findings :: accumulators where
  "no_findings = \<lparr>all_unused = [], all_duplicates = [], all_errors = []\<rparr>"

text \<open>Lines 106 to 112 (and 114 to 119): analyse one file, partition the first list by the
  keys present, extend the three accumulators. An exception of the analyzer is not caught
  here.\<close>

definition collect_file ::
  "(string set \<Rightarrow> string list) \<Rightarrow> nat \<Rightarrow> filesystem \<Rightarrow> string \<Rightarrow> accumulators
     \<Rightarrow> exn + accumulators" where
  "collect_file iter frames fs file acc =
     (case find_unused_and_duplicate_imports_in_file iter frames file (read_and_parse fs file) of
        Inl e \<Rightarrow> Inl e
      | Inr (unused, duplicates) \<Rightarrow>
          Inr (acc\<lparr>all_unused := all_unused acc @ filter (has_key ''import_statement'') unused,
                   all_duplicates := all_duplicates acc @ duplicates,
                   all_errors := all_errors acc @ filter (has_key ''error'') unused\<rparr>))"

fun collect_files ::
  "(string set \<Rightarrow> string list) \<Rightarrow> nat \<Rightarrow> filesystem \<Rightarrow> string list \<Rightarrow> accumulators
     \<Rightarrow> exn + accumulators" where
  "collect_files iter frames fs [] acc = Inr acc"
| "collect_files iter frames fs (file # files) acc =
     (case collect_file iter frames fs file acc of
        Inl e \<Rightarrow> Inl e
      | Inr acc' \<Rightarrow> collect_files iter frames fs files acc')"

text \<open>\<^verbatim>\<open>r[k]\<close>, raising \<^verbatim>\<open>KeyError\<close>.\<close>

definition getitem :: "pydict \<Rightarrow> string \<Rightarrow> exn + pyval" where
  "getitem r k = (case map_of r k of None \<Rightarrow> Inl (KeyError k) | Some v \<Rightarrow> Inr v)"

text \<open>The three sort keys. Python compares the keys of two records and raises
  \<^verbatim>\<open>TypeError\<close> when their types differ; here a key of another type than the one the
  program stores under it raises at once.\<close>

definition file_key :: "pydict \<Rightarrow> exn + string" where
  "file_key r = (case getitem r ''file'' of
       Inl e \<Rightarrow> Inl e
     | Inr v \<Rightarrow> (case v of PyStr f \<Rightarrow> Inr f | PyInt i \<Rightarrow> Inl TypeError | PyList ls \<Rightarrow> Inl TypeError))"

definition file_line_key :: "pydict \<Rightarrow> exn + string \<times> int" where
  "file_line_key r = (case file_key r of
       Inl e \<Rightarrow> Inl e
     | Inr f \<Rightarrow> (case getitem r ''line'' of
          Inl e \<Rightarrow> Inl e
        | Inr v \<Rightarrow> (case v of PyInt l \<Rightarrow> Inr (f, l) | PyStr s \<Rightarrow> Inl TypeError | PyList ls \<Rightarrow> Inl TypeError)))"

definition file_lines_key :: "pydict \<Rightarrow> exn + string \<times> int list" where
  "file_lines_key r = (case file_key r of
       Inl e \<Rightarrow> Inl e
     | Inr f \<Rightarrow> (case getitem r ''lines'' of
          Inl e \<Rightarrow> Inl e
        | Inr v \<Rightarrow> (case v of PyList ls \<Rightarrow> Inr (f, ls) | PyStr s \<Rightarrow> Inl TypeError | PyInt i \<Rightarrow> Inl TypeError)))"

text \<open>\<^verbatim>\<open>sorted(xs, key=...)\<close>: the keys are computed first, one per element and in order,
  then the elements are sorted by key, stably (\<open>sort_key\<close> is a stable insertion sort).\<close>

fun decorate :: "('a \<Rightarrow> exn + 'k) \<Rightarrow> 'a list \<Rightarrow> exn + ('k \<times> 'a) list" where
  "decorate key [] = Inr []"
| "decorate key (x # xs) =
     (case key x of
        Inl e \<Rightarrow> Inl e
      | Inr k \<Rightarrow> (case decorate key xs of Inl e \<Rightarrow> Inl e | Inr kxs \<Rightarrow> Inr ((k, x) # kxs)))"

definition sorted_py :: "('a \<Rightarrow> exn + 'k::linorder) \<Rightarrow> 'a list \<Rightarrow> exn + 'a list" where
  "sorted_py key xs =
     (case decorate key xs of Inl e \<Rightarrow> Inl e | Inr kxs \<Rightarrow> Inr (map snd (sort_key fst kxs)))"

text \<open>How a run ends: \<^verbatim>\<open>sys.exit(1)\<close> after a message on standard error, or the three
  sorted lists handed to the printing code (lines 130 to 156, which only render them).\<close>

datatype run = SysExit int string | Report "pydict list" "pydict list" "pydict list"

definition sort_findings :: "accumulators \<Rightarrow> exn + run" where
  "sort_findings acc =
     (case sorted_py file_line_key (all_unused acc) of
        Inl e \<Rightarrow> Inl e
      | Inr unused_sorted \<Rightarrow>
          (case sorted_py file_lines_key (all_duplicates acc) of
             Inl e \<Rightarrow> Inl e
           | Inr duplicates_sorted \<Rightarrow>
               (case sorted_py file_key (all_errors acc) of
                  Inl e \<Rightarrow> Inl e
                | Inr errors_sorted \<Rightarrow> Inr (Report unused_sorted duplicates_sorted errors_sorted))))"

definition main ::
  "(string set \<Rightarrow> string list) \<Rightarrow> nat \<Rightarrow> filesystem \<Rightarrow> string \<Rightarrow> exn + run" where
  "main iter frames fs path =
     (if isdir fs path then
        (let files = find_python_files_in_directory fs path in
         if files = [] then Inr (SysExit 1 (''No Python files found in directory: '' @ path))
         else (case collect_files iter frames fs files no_findings of
                 Inl e \<Rightarrow> Inl e
               | Inr acc \<Rightarrow> sort_findings acc))
      else if isfile fs path then
        (case collect_file iter frames fs path no_findings of
           Inl e \<Rightarrow> Inl e
         | Inr acc \<Rightarrow> sort_findings acc)
      else Inr (SysExit 1 (''Error: '' @ [CHR 0x27] @ path @ [CHR 0x27]
                            @ '' is not a valid file or directory.'')))"

text \<open>The status of the process: the argument of \<^verbatim>\<open>sys.exit\<close>, 0 when \<^verbatim>\<open>main\<close>
  returns, and 1 when the interpreter ends on an exception nobody caught.\<close>

definition exit_code :: "exn + run \<Rightarrow> int" where
  "exit_code r = (case r of Inl e \<Rightarrow> 1 | Inr (SysExit c msg) \<Rightarrow> c | Inr (Report u d e) \<Rightarrow> 0)"

subsection \<open>Notions used to state the properties\<close>

text \<open>The nodes of a tree in pre-order, which for statements is the order of the
  document.\<close>

fun preorder :: "node \<Rightarrow> node list" where
  "preorder (Node cs) = Node cs # concat (map preorder cs)"
| "preorder (Attribute cs) = Attribute cs # concat (map preorder cs)"
| "preorder Constant = [Constant]"
| "preorder (Import l ns) = [Import l ns]"
| "preorder (ImportFrom l m ns) = [ImportFrom l m ns]"
| "preorder (Name i) = [Name i]"

text \<open>All bindings (bound name, line, statement text) of a tree, in the order in which
  \<^verbatim>\<open>ast.walk\<close> reaches them and in pre-order.\<close>

definition walk_bindings :: "node \<Rightarrow> (string \<times> int \<times> string) list" where
  "walk_bindings tree = concat (map bindings_of (walk tree))"

definition preorder_bindings :: "node \<Rightarrow> (string \<times> int \<times> string) list" where
  "preorder_bindings tree = concat (map bindings_of (preorder tree))"

text \<open>The bound names of all import statements of a tree, and the identifiers of all its
  name nodes.\<close>

definition bound_names :: "node \<Rightarrow> string set" where
  "bound_names tree = set (map fst (preorder_bindings tree))"

fun name_id :: "node \<Rightarrow> string list" where
  "name_id (Name i) = [i]"
| "name_id (Import l ns) = []"
| "name_id (ImportFrom l m ns) = []"
| "name_id (Attribute cs) = []"
| "name_id Constant = []"
| "name_id (Node cs) = []"

definition usage_set :: "node \<Rightarrow> string set" where
  "usage_set tree = set (concat (map name_id (preorder tree)))"

text \<open>The bindings of one name, the line and text of the last of them, and the lines of
  the bindings with one statement text, all in the order of the given list.\<close>

definition named :: "string \<Rightarrow> (string \<times> int \<times> string) list \<Rightarrow> (string \<times> int \<times> string) list" where
  "named nm bs = filter (\<lambda>b. fst b = nm) bs"

definition last_named :: "string \<Rightarrow> (string \<times> int \<times> string) list \<Rightarrow> (int \<times> string) option" where
  "last_named nm bs = (case rev (named nm bs) of [] \<Rightarrow> None | b # bs' \<Rightarrow> Some (snd b))"

definition lines_of :: "string \<Rightarrow> (string \<times> int \<times> string) list \<Rightarrow> int list" where
  "lines_of stmt bs = map (\<lambda>b. fst (snd b)) (filter (\<lambda>b. snd (snd b) = stmt) bs)"

text \<open>The bound names of a tree that are not an identifier of a name node of it, in the
  order of iteration of that set.\<close>

definition unused_names :: "(string set \<Rightarrow> string list) \<Rightarrow> node \<Rightarrow> string list" where
  "unused_names iter tree = iter (bound_names tree - usage_set tree)"

text \<open>The number of nested calls the visitor makes on a tree: two at every node, \<^verbatim>\<open>visit\<close>
  and the method it calls, and a third at an attribute and at a constant, whose methods
  call \<^verbatim>\<open>generic_visit\<close>; a name is not descended into, an import has its \<^verbatim>\<open>alias\<close> nodes
  below it.\<close>

fun frames_needed :: "node \<Rightarrow> nat"
  and frames_needed_list :: "node list \<Rightarrow> nat" where
  "frames_needed (Name i) = 2"
| "frames_needed Constant = 3"
| "frames_needed (Attribute cs) = 3 + frames_needed_list cs"
| "frames_needed (Node cs) = 2 + frames_needed_list cs"
| "frames_needed (Import l ns) = (if ns = [] then 2 else 4)"
| "frames_needed (ImportFrom l m ns) = (if ns = [] then 2 else 4)"
| "frames_needed_list [] = 0"
| "frames_needed_list (c # cs) = max (frames_needed c) (frames_needed_list cs)"

text \<open>A node without import statements in its subtree, and a tree whose import statements
  are all children of the root (the statements of the module body).\<close>

definition import_free :: "node \<Rightarrow> bool" where
  "import_free n = (preorder_bindings n = [])"

definition imports_at_top_level :: "node \<Rightarrow> bool" where
  "imports_at_top_level tree =
     list_all (\<lambda>c. list_all import_free (iter_child_nodes c)) (iter_child_nodes tree)"

subsection \<open>Concrete inputs\<close>

text \<open>Two iteration orders of a set of strings: ascending and descending.\<close>

definition ascending :: "string set \<Rightarrow> string list" where
  "ascending S = sorted_list_of_set S"

definition descending :: "string set \<Rightarrow> string list" where
  "descending S = rev (sorted_list_of_set S)"

text \<open>The room at line 57 when CPython runs the program as a script with its default
  recursion limit of 1000: the module, \<^verbatim>\<open>main\<close> and the analyzer are on the stack, and
  the calls of the visitor can nest about 995 deep before one of them raises.\<close>

definition cpython_frames :: nat where
  "cpython_frames = 995"

text \<open>The file \<^verbatim>\<open>import json\<close>, \<^verbatim>\<open>import json\<close>.\<close>

definition two_json :: node where
  "two_json = Node [Import 1 [Alias ''json'' None], Import 2 [Alias ''json'' None]]"

text \<open>The files \<^verbatim>\<open>def f(): import os as x\<close> (lines 1 and 2), \<^verbatim>\<open>import sys as x\<close> (line 3) and
  \<^verbatim>\<open>def f(): import os\<close> (lines 1 and 2), \<^verbatim>\<open>import os\<close> (line 3): the children of a function
  definition are its \<^verbatim>\<open>arguments\<close> node, here a leaf, and the statements of its body.\<close>

definition nested_rebinding :: node where
  "nested_rebinding =
     Node [Node [Node [], Import 2 [Alias ''os'' (Some ''x'')]],
           Import 3 [Alias ''sys'' (Some ''x'')]]"

definition nested_duplicate :: node where
  "nested_duplicate =
     Node [Node [Node [], Import 2 [Alias ''os'' None]], Import 3 [Alias ''os'' None]]"

text \<open>The file \<^verbatim>\<open>import os\<close>, \<^verbatim>\<open>import os as o\<close>.\<close>

definition os_and_alias :: node where
  "os_and_alias = Node [Import 1 [Alias ''os'' None], Import 2 [Alias ''os'' (Some ''o'')]]"

text \<open>The file \<^verbatim>\<open>import os\<close>, \<^verbatim>\<open>import sys\<close>, \<^verbatim>\<open>print(os.getcwd())\<close>: the third statement
  is an expression statement with a call of the name \<^verbatim>\<open>print\<close> on a call of the attribute
  \<^verbatim>\<open>getcwd\<close> of the name \<^verbatim>\<open>os\<close>; the last leaf is the context of the attribute.\<close>

definition os_sys_print :: node where
  "os_sys_print =
     Node [Import 1 [Alias ''os'' None], Import 2 [Alias ''sys'' None],
           Node [Node [Name ''print'', Node [Attribute [Name ''os'', Node []]]]]]"

text \<open>The expression \<^verbatim>\<open>1 + 1 + ... + 1\<close> with \<open>n\<close> additions: \<^verbatim>\<open>BinOp\<close> nodes nested in
  their left operand, each with its operator and its right operand as further children.
  \<open>deep_sum\<close> is the file \<^verbatim>\<open>import os\<close>, \<^verbatim>\<open>x = 1 + 1 + ... + 1\<close> with 500 terms: a module
  with the import and an assignment, whose children are the name \<^verbatim>\<open>x\<close> and the sum.\<close>

fun sum_of :: "nat \<Rightarrow> node" where
  "sum_of 0 = Constant"
| "sum_of (Suc n) = Node [sum_of n, Node [], Constant]"

definition deep_sum :: node where
  "deep_sum = Node [Import 1 [Alias ''os'' None], Node [Name ''x'', sum_of 499]]"

subsection \<open>Well-formed findings and file systems\<close>

text \<open>The three shapes of record the program builds, and the sort keys as total
  functions.\<close>

definition unused_shaped :: "pydict \<Rightarrow> bool" where
  "unused_shaped r = (\<exists>f l s. r = unused_record f l s)"

definition duplicate_shaped :: "pydict \<Rightarrow> bool" where
  "duplicate_shaped r = (\<exists>f ls s. r = duplicate_record f ls s)"

definition error_shaped :: "pydict \<Rightarrow> bool" where
  "error_shaped r = (\<exists>f m. r = error_record f m)"

definition well_shaped :: "accumulators \<Rightarrow> bool" where
  "well_shaped acc = (list_all unused_shaped (all_unused acc)
     \<and> list_all duplicate_shaped (all_duplicates acc)
     \<and> list_all error_shaped (all_errors acc))"

definition unused_key :: "pydict \<Rightarrow> string \<times> int" where
  "unused_key r = projr (file_line_key r)"

definition duplicate_key :: "pydict \<Rightarrow> string \<times> int list" where
  "duplicate_key r = projr (file_lines_key r)"

definition error_key :: "pydict \<Rightarrow> string" where
  "error_key r = projr (file_key r)"

text \<open>The files a run analyses.\<close>

definition analysed_files :: "filesystem \<Rightarrow> string \<Rightarrow> string list" where
  "analysed_files fs path =
     (if isdir fs path then find_python_files_in_directory fs path
      else if isfile fs path then [path] else [])"

text \<open>A file that is not UTF-8, and a directory \<^verbatim>\<open>proj\<close> with a file that does not
  parse, the file of \<open>two_json\<close> and a file that is not Python, next to an empty directory.\<close>

definition fs_undecodable :: filesystem where
  "fs_undecodable =
     \<lparr>isdir = (\<lambda>p. False), isfile = (\<lambda>p. p = ''latin1.py''), os_walk = (\<lambda>p. []),
      read_and_parse = (\<lambda>p. Raises (UnicodeDecodeError ''invalid start byte''))\<rparr>"

definition fs_project :: filesystem where
  "fs_project =
     \<lparr>isdir = (\<lambda>p. p = ''proj'' \<or> p = ''empty''),
      isfile = (\<lambda>p. p = ''proj/bad.py'' \<or> p = ''proj/good.py'' \<or> p = ''proj/README''),
      os_walk = (\<lambda>p. if p = ''proj'' then [(''proj'', [], [''bad.py'', ''good.py'', ''README''])]
                      else if p = ''empty'' then [(''empty'', [], [])] else []),
      read_and_parse = (\<lambda>p. if p = ''proj/bad.py'' then Raises (SyntaxError ''invalid syntax'')
                              else if p = ''proj/good.py'' then Parsed two_json
                              else Raises (FileNotFoundError ''No such file or directory''))\<rparr>"

text \<open>A directory with the file of \<open>two_json\<close> and a file that is not UTF-8.\<close>

definition fs_mixed :: filesystem where
  "fs_mixed =
     \<lparr>isdir = (\<lambda>p. p = ''proj''),
      isfile = (\<lambda>p. p = ''proj/clean.py'' \<or> p = ''proj/latin1.py''),
      os_walk = (\<lambda>p. if p = ''proj'' then [(''proj'', [], [''clean.py'', ''latin1.py''])] else []),
      read_and_parse = (\<lambda>p. if p = ''proj/clean.py'' then Parsed two_json
                              else Raises (UnicodeDecodeError ''invalid start byte''))\<rparr>"

text \<open>What a file adds to the three accumulators when the analyzer returns for it.\<close>

definition file_findings ::
  "(string set \<Rightarrow> string list) \<Rightarrow> nat \<Rightarrow> filesystem \<Rightarrow> string
     \<Rightarrow> pydict list \<times> pydict list \<times> pydict list" where
  "file_findings iter frames fs file =
     (case find_unused_and_duplicate_imports_in_file iter frames file (read_and_parse fs file) of
        Inl e \<Rightarrow> ([], [], [])
      | Inr (rs, ds) \<Rightarrow>
          (filter (has_key ''import_statement'') rs, ds, filter (has_key ''error'') rs))"

text \<open>Two states of the accumulators with the same findings: the unused findings up to
  their order, the other two lists as they are.\<close>

definition same_findings :: "accumulators \<Rightarrow> accumulators \<Rightarrow> bool" where
  "same_findings a b = (mset (all_unused a) = mset (all_unused b)
     \<and> all_duplicates a = all_duplicates b \<and> all_errors a = all_errors b)"

text \<open>The statement \<^verbatim>\<open>import a, b\<close>, and a file system with the one file \<^verbatim>\<open>m.py\<close> of a
  given tree.\<close>

definition import_a_b :: node where
  "import_a_b = Node [Import 1 [Alias ''a'' None, Alias ''b'' None]]"

definition fs_single :: "node \<Rightarrow> filesystem" where
  "fs_single tree =
     \<lparr>isdir = (\<lambda>p. False), isfile = (\<lambda>p. p = ''m.py''), os_walk = (\<lambda>p. []),
      read_and_parse = (\<lambda>p. Parsed tree)\<rparr>"

section \<open>Properties\<close>

subsection \<open>The walk reaches every node once\<close>

lemma mset_preorder_children:
  "mset (preorder n) = add_mset n (mset (concat (map preorder (iter_child_nodes n))))"
  by (cases n) simp_all

lemma mset_walk_todo: "mset (walk_todo todo) = mset (concat (map preorder todo))"
proof (induction todo rule: walk_todo.induct)
  case 1
  show ?case by simp
next
  case (2 n todo)
  show ?case using 2 by (simp add: mset_preorder_children)
qed

lemma mset_walk: "mset (walk tree) = mset (preorder tree)"
  by (simp add: walk_def mset_walk_todo mset_preorder_children)

lemma mset_concat_image:
  "mset (concat (map f xs)) = sum_mset (image_mset (\<lambda>x. mset (f x)) (mset xs))"
  by (induction xs) simp_all

lemma mset_walk_bindings: "mset (walk_bindings tree) = mset (preorder_bindings tree)"
  by (simp add: walk_bindings_def preorder_bindings_def mset_concat_image mset_walk)

lemma set_walk_bindings: "set (walk_bindings tree) = set (preorder_bindings tree)"
  using mset_walk_bindings by (rule mset_eq_setD)

subsection \<open>The walk of a tree whose imports are top-level statements\<close>

lemma concat_bindings_concat:
  "concat (map bindings_of (concat (map preorder cs))) = concat (map preorder_bindings cs)"
  by (induction cs) (simp_all add: preorder_bindings_def)

lemma preorder_bindings_unfold:
  "preorder_bindings n = bindings_of n @ concat (map preorder_bindings (iter_child_nodes n))"
proof (cases n)
  case (Node cs)
  have "preorder_bindings (Node cs) = concat (map bindings_of (concat (map preorder cs)))"
    by (simp add: preorder_bindings_def)
  then show ?thesis unfolding Node concat_bindings_concat by simp
next
  case (Attribute cs)
  have "preorder_bindings (Attribute cs) = concat (map bindings_of (concat (map preorder cs)))"
    by (simp add: preorder_bindings_def)
  then show ?thesis unfolding Attribute concat_bindings_concat by simp
qed (simp_all add: preorder_bindings_def)

lemma import_free_children:
  assumes "import_free n"
  shows "bindings_of n = []" and "list_all import_free (iter_child_nodes n)"
proof -
  from assms have "bindings_of n @ concat (map preorder_bindings (iter_child_nodes n)) = []"
    unfolding import_free_def preorder_bindings_unfold[of n] .
  then show "bindings_of n = []" and "list_all import_free (iter_child_nodes n)"
    by (auto simp: list_all_iff import_free_def)
qed

lemma concat_bindings_import_free:
  "list_all import_free cs \<Longrightarrow> concat (map bindings_of cs) = []"
  by (induction cs) (simp_all add: import_free_children(1))

lemma concat_preorder_bindings_import_free:
  "list_all import_free cs \<Longrightarrow> concat (map preorder_bindings cs) = []"
  by (induction cs) (simp_all add: import_free_def)

lemma walk_todo_flat:
  "list_all (\<lambda>n. list_all import_free (iter_child_nodes n)) todo
     \<Longrightarrow> concat (map bindings_of (walk_todo todo)) = concat (map bindings_of todo)"
proof (induction todo rule: walk_todo.induct)
  case 1
  show ?case by simp
next
  case (2 n todo)
  from "2.prems" have c: "list_all import_free (iter_child_nodes n)"
    and t: "list_all (\<lambda>n. list_all import_free (iter_child_nodes n)) todo" by simp_all
  have "list_all (\<lambda>n. list_all import_free (iter_child_nodes n)) (iter_child_nodes n)"
    using c import_free_children(2) unfolding list_all_iff by blast
  with t have "list_all (\<lambda>n. list_all import_free (iter_child_nodes n)) (todo @ iter_child_nodes n)"
    by simp
  then have "concat (map bindings_of (walk_todo (todo @ iter_child_nodes n)))
      = concat (map bindings_of (todo @ iter_child_nodes n))" by (rule "2.IH")
  then show ?case by (simp add: concat_bindings_import_free[OF c])
qed

lemma walk_bindings_top_level:
  assumes "imports_at_top_level tree"
  shows "walk_bindings tree = preorder_bindings tree"
proof -
  let ?cs = "iter_child_nodes tree"
  have "walk_bindings tree = bindings_of tree @ concat (map bindings_of (walk_todo ?cs))"
    by (simp add: walk_bindings_def walk_def)
  also have "concat (map bindings_of (walk_todo ?cs)) = concat (map bindings_of ?cs)"
    using assms unfolding imports_at_top_level_def by (rule walk_todo_flat)
  also have "concat (map bindings_of ?cs) = concat (map preorder_bindings ?cs)"
  proof -
    have "\<forall>c \<in> set ?cs. preorder_bindings c = bindings_of c"
    proof
      fix c assume "c \<in> set ?cs"
      with assms have "list_all import_free (iter_child_nodes c)"
        by (simp add: imports_at_top_level_def list_all_iff)
      then show "preorder_bindings c = bindings_of c"
        unfolding preorder_bindings_unfold[of c]
        by (simp add: concat_preorder_bindings_import_free)
    qed
    then show ?thesis by (simp cong: map_cong)
  qed
  finally show ?thesis unfolding preorder_bindings_unfold[of tree] .
qed

subsection \<open>What the extractor loop leaves in its three collections\<close>

lemma fold_fold_concat: "fold (\<lambda>x. fold f (g x)) xs st = fold f (concat (map g xs)) st"
  by (induction xs arbitrary: st) simp_all

lemma extract_imports_fold:
  "extract_imports tree = fold record_binding (walk_bindings tree) empty_state"
  unfolding extract_imports_def walk_bindings_def
  by (simp add: visit_import_def[abs_def] fold_fold_concat)

lemma imports_fold:
  "imports (fold record_binding bs st) = imports st \<union> fst ` set bs"
  by (induction bs arbitrary: st) (auto simp: record_binding_def)

lemma aliases_fold_snoc:
  "import_aliases (fold record_binding (bs @ [(nm, l, s)]) st)
     = (import_aliases (fold record_binding bs st))(nm \<mapsto> (l, s))"
  by (simp add: record_binding_def)

lemma statements_fold_snoc:
  "import_statements (fold record_binding (bs @ [(nm, l, s)]) st)
     = append_line (import_statements (fold record_binding bs st)) s l"
  by (simp add: record_binding_def)

lemma aliases_fold:
  "import_aliases (fold record_binding bs empty_state) nm = last_named nm bs"
proof (induction bs rule: rev_induct)
  case Nil
  show ?case by (simp add: empty_state_def last_named_def named_def)
next
  case (snoc b bs)
  obtain n l s where b: "b = (n, l, s)" by (cases b)
  show ?case using snoc unfolding b aliases_fold_snoc
    by (simp add: last_named_def named_def)
qed

lemma map_of_append_line:
  "map_of (append_line kvs k l) k' =
     (if k' = k then Some (case map_of kvs k of None \<Rightarrow> [l] | Some ls \<Rightarrow> ls @ [l])
      else map_of kvs k')"
  by (induction kvs k l rule: append_line.induct) auto

lemma keys_append_line:
  "map fst (append_line kvs k l)
     = (if k \<in> set (map fst kvs) then map fst kvs else map fst kvs @ [k])"
  by (induction kvs k l rule: append_line.induct) auto

lemma statements_fold:
  "map_of (import_statements (fold record_binding bs empty_state)) stmt =
     (if lines_of stmt bs = [] then None else Some (lines_of stmt bs))"
proof (induction bs rule: rev_induct)
  case Nil
  show ?case by (simp add: empty_state_def lines_of_def)
next
  case (snoc b bs)
  obtain n l s where b: "b = (n, l, s)" by (cases b)
  show ?case using snoc unfolding b statements_fold_snoc map_of_append_line
    by (auto simp: lines_of_def split: if_splits)
qed

lemma statements_distinct:
  "distinct (map fst (import_statements (fold record_binding bs empty_state)))"
proof (induction bs rule: rev_induct)
  case Nil
  show ?case by (simp add: empty_state_def)
next
  case (snoc b bs)
  obtain n l s where b: "b = (n, l, s)" by (cases b)
  show ?case using snoc unfolding b statements_fold_snoc keys_append_line
    by simp
qed

lemma statements_set:
  "(stmt, ls) \<in> set (import_statements (fold record_binding bs empty_state))
     \<longleftrightarrow> ls = lines_of stmt bs \<and> ls \<noteq> []"
proof -
  let ?kvs = "import_statements (fold record_binding bs empty_state)"
  have "(stmt, ls) \<in> set ?kvs \<longleftrightarrow> map_of ?kvs stmt = Some ls"
    using statements_distinct[of bs] by simp
  then show ?thesis
    unfolding statements_fold by auto
qed

subsection \<open>What the visitor collects\<close>

lemma frames_needed_alias_nodes:
  "frames_needed_list (alias_nodes ns) = (if ns = [] then 0 else 2)"
  by (induction ns) (simp_all add: alias_nodes_def)

lemma usage_set_alias_nodes: "(\<Union>c \<in> set (alias_nodes ns). usage_set c) = {}"
  by (simp add: alias_nodes_def usage_set_def)

lemma usage_set_Node: "usage_set (Node cs) = (\<Union>c \<in> set cs. usage_set c)"
  by (simp add: usage_set_def)

lemma usage_set_Attribute: "usage_set (Attribute cs) = (\<Union>c \<in> set cs. usage_set c)"
  by (simp add: usage_set_def)

lemma usage_set_leaf:
  "usage_set (Name i) = {i}" "usage_set Constant = {}"
  "usage_set (Import l ns) = {}" "usage_set (ImportFrom l m ns) = {}"
  by (simp_all add: usage_set_def)

lemma visit_result:
  "visit frames n used =
     (if frames_needed n \<le> frames then Inr (used \<union> usage_set n) else Inl RecursionError)"
  and visit_Name_result:
  "visit_Name frames i used =
     (if 1 \<le> frames then Inr (insert i used) else Inl RecursionError)"
  and visit_Attribute_result:
  "visit_Attribute frames cs used =
     (if 2 + frames_needed_list cs \<le> frames then Inr (used \<union> (\<Union>c \<in> set cs. usage_set c))
      else Inl RecursionError)"
  and visit_Constant_result:
  "visit_Constant frames used = (if 2 \<le> frames then Inr used else Inl RecursionError)"
  and generic_visit_result:
  "generic_visit frames cs used =
     (if 1 + frames_needed_list cs \<le> frames then Inr (used \<union> (\<Union>c \<in> set cs. usage_set c))
      else Inl RecursionError)"
  and visit_children_result:
  "visit_children frames cs used =
     (if frames_needed_list cs \<le> frames then Inr (used \<union> (\<Union>c \<in> set cs. usage_set c))
      else Inl RecursionError)"
proof (induction frames n used and frames i used and frames cs used and frames used
    and frames cs used and frames cs used
    rule: visit_visit_Name_visit_Attribute_visit_Constant_generic_visit_visit_children.induct)
  case (1 n used)
  show ?case by (cases n) simp_all
next
  case (2 frames i used)
  then show ?case by (simp add: usage_set_leaf)
next
  case (3 frames cs used)
  then show ?case by (simp add: usage_set_Attribute)
next
  case (4 frames used)
  then show ?case by (simp add: usage_set_leaf)
next
  case (5 frames cs used)
  then show ?case by (simp add: usage_set_Node)
next
  case (6 frames l ns used)
  then show ?case
    by (simp add: frames_needed_alias_nodes usage_set_alias_nodes usage_set_leaf)
next
  case (7 frames l m ns used)
  then show ?case
    by (simp add: frames_needed_alias_nodes usage_set_alias_nodes usage_set_leaf)
next
  case (8 i used)
  show ?case by simp
next
  case (9 frames i used)
  show ?case by simp
next
  case (10 cs used)
  show ?case by simp
next
  case (11 frames cs used)
  then show ?case by simp
next
  case (12 used)
  show ?case by simp
next
  case (13 frames used)
  then show ?case by simp
next
  case (14 cs used)
  show ?case by simp
next
  case (15 frames cs used)
  then show ?case by simp
next
  case (16 frames used)
  show ?case by simp
next
  case (17 frames c cs used)
  show ?case
  proof (cases "frames_needed c \<le> frames")
    case True
    then show ?thesis using 17 by (auto simp: Un_assoc)
  next
    case False
    then show ?thesis using 17 by simp
  qed
qed

subsection \<open>What the analyzer returns for a tree\<close>

lemma unused_results_Inr:
  "unused_results f al nms = Inr rs \<longleftrightarrow>
     list_all2 (\<lambda>nm r. \<exists>l s. al nm = Some (l, s) \<and> r = unused_record f l s) nms rs"
proof (induction nms arbitrary: rs)
  case Nil
  show ?case by auto
next
  case (Cons nm nms)
  show ?case
    by (auto simp: list_all2_Cons1 Cons.IH[symmetric] split: option.splits sum.splits)
qed

lemma unused_results_total:
  "\<forall>nm \<in> set nms. al nm \<noteq> None \<Longrightarrow> \<exists>rs. unused_results f al nms = Inr rs"
  by (induction nms) (auto split: option.splits sum.splits)

lemma last_named_None: "last_named nm bs = None \<longleftrightarrow> nm \<notin> fst ` set bs"
proof -
  have "last_named nm bs = None \<longleftrightarrow> named nm bs = []"
    by (simp add: last_named_def split: list.splits)
  also have "\<dots> \<longleftrightarrow> nm \<notin> fst ` set bs"
    by (auto simp: named_def filter_empty_conv)
  finally show ?thesis .
qed

lemma last_named_Some: "last_named nm bs = Some (l, s) \<Longrightarrow> (nm, l, s) \<in> set bs"
proof -
  assume a: "last_named nm bs = Some (l, s)"
  then obtain b bs' where r: "rev (named nm bs) = b # bs'" and b: "snd b = (l, s)"
    by (auto simp: last_named_def split: list.splits)
  have "b \<in> set (rev (named nm bs))" unfolding r by simp
  then have "b \<in> set bs" "fst b = nm" by (auto simp: named_def)
  with b show ?thesis by (cases b) auto
qed

lemma imports_extract: "imports (extract_imports tree) = bound_names tree"
  by (simp add: extract_imports_fold imports_fold empty_state_def bound_names_def
      set_walk_bindings)

lemma aliases_extract:
  "import_aliases (extract_imports tree) nm = last_named nm (walk_bindings tree)"
  by (simp add: extract_imports_fold aliases_fold)

lemma used_extract:
  "visit frames tree {} = (if frames_needed tree \<le> frames then Inr (usage_set tree) else Inl RecursionError)"
  by (simp add: visit_result)

lemma unused_names_props:
  assumes "set_iteration iter"
  shows "set (unused_names iter tree) = bound_names tree - usage_set tree"
    and "distinct (unused_names iter tree)"
proof -
  have "finite (bound_names tree - usage_set tree)" by (simp add: bound_names_def)
  with assms show "set (unused_names iter tree) = bound_names tree - usage_set tree"
    and "distinct (unused_names iter tree)"
    by (simp_all add: set_iteration_def unused_names_def)
qed

lemma analyze_tree_unfold:
  "analyze_tree iter frames f tree =
     (if frames_needed tree \<le> frames then
        (case unused_results f (import_aliases (extract_imports tree)) (unused_names iter tree) of
           Inl e \<Rightarrow> Inl e
         | Inr rs \<Rightarrow> Inr (rs, duplicate_results f (import_statements (extract_imports tree))))
      else Inl RecursionError)"
  by (simp add: analyze_tree_def Let_def used_extract unused_names_def imports_extract)

lemma analyze_tree_deep:
  "frames < frames_needed tree \<Longrightarrow> analyze_tree iter frames f tree = Inl RecursionError"
  by (simp add: analyze_tree_unfold)

lemma analyze_tree_result:
  assumes "set_iteration iter" and "frames_needed tree \<le> frames"
  shows "\<exists>rs. analyze_tree iter frames f tree
            = Inr (rs, duplicate_results f (import_statements (extract_imports tree)))
          \<and> list_all2 (\<lambda>nm r. \<exists>l s. last_named nm (walk_bindings tree) = Some (l, s)
                                  \<and> r = unused_record f l s) (unused_names iter tree) rs"
proof -
  let ?al = "import_aliases (extract_imports tree)"
  have "nm \<in> set (unused_names iter tree) \<Longrightarrow> ?al nm \<noteq> None" for nm
    unfolding unused_names_props(1)[OF assms(1)] aliases_extract last_named_None
    by (simp add: bound_names_def set_walk_bindings)
  then have "\<forall>nm \<in> set (unused_names iter tree). ?al nm \<noteq> None" by blast
  then obtain rs where rs: "unused_results f ?al (unused_names iter tree) = Inr rs"
    using unused_results_total by blast
  then have "list_all2 (\<lambda>nm r. \<exists>l s. ?al nm = Some (l, s) \<and> r = unused_record f l s)
               (unused_names iter tree) rs"
    by (simp add: unused_results_Inr)
  then have "list_all2 (\<lambda>nm r. \<exists>l s. last_named nm (walk_bindings tree) = Some (l, s)
                                  \<and> r = unused_record f l s) (unused_names iter tree) rs"
    by (simp add: aliases_extract)
  moreover have "analyze_tree iter frames f tree
            = Inr (rs, duplicate_results f (import_statements (extract_imports tree)))"
    using rs assms(2) by (simp add: analyze_tree_unfold)
  ultimately show ?thesis by blast
qed

lemma analyze_tree_Inr:
  assumes "analyze_tree iter frames f tree = Inr (rs, ds)"
  shows "ds = duplicate_results f (import_statements (extract_imports tree))"
    and "list_all2 (\<lambda>nm r. \<exists>l s. last_named nm (walk_bindings tree) = Some (l, s)
                                  \<and> r = unused_record f l s) (unused_names iter tree) rs"
    and "frames_needed tree \<le> frames"
    and "unused_results f (import_aliases (extract_imports tree)) (unused_names iter tree) = Inr rs"
proof -
  from assms show h: "frames_needed tree \<le> frames"
    by (simp add: analyze_tree_unfold split: if_splits)
  from assms h obtain rs' where
    u: "unused_results f (import_aliases (extract_imports tree)) (unused_names iter tree) = Inr rs'"
    by (simp add: analyze_tree_unfold split: sum.splits)
  with assms h have e: "rs = rs'" "ds = duplicate_results f (import_statements (extract_imports tree))"
    by (simp_all add: analyze_tree_unfold)
  show "ds = duplicate_results f (import_statements (extract_imports tree))" by (rule e(2))
  from u show "unused_results f (import_aliases (extract_imports tree)) (unused_names iter tree) = Inr rs"
    unfolding e(1) .
  from u show "list_all2 (\<lambda>nm r. \<exists>l s. last_named nm (walk_bindings tree) = Some (l, s)
                                  \<and> r = unused_record f l s) (unused_names iter tree) rs"
    unfolding e(1) unused_results_Inr by (simp add: aliases_extract)
qed

lemma duplicate_results_mem:
  "d \<in> set (duplicate_results f kvs) \<longleftrightarrow>
     (\<exists>stmt ls. (stmt, ls) \<in> set kvs \<and> 1 < length ls \<and> d = duplicate_record f ls stmt)"
  by (induction kvs) (auto simp: duplicate_results_def)

lemma duplicate_results_set:
  "d \<in> set (duplicate_results f (import_statements (extract_imports tree))) \<longleftrightarrow>
     (\<exists>stmt. d = duplicate_record f (lines_of stmt (walk_bindings tree)) stmt
            \<and> 1 < length (lines_of stmt (walk_bindings tree)))"
  (is "?L \<longleftrightarrow> ?R")
proof
  assume ?L
  then obtain stmt ls where m: "(stmt, ls) \<in> set (import_statements (extract_imports tree))"
    and l: "1 < length ls" and d: "d = duplicate_record f ls stmt"
    unfolding duplicate_results_mem by blast
  from m have "ls = lines_of stmt (walk_bindings tree)"
    unfolding extract_imports_fold statements_set by simp
  with l d show ?R by blast
next
  assume ?R
  then obtain stmt where d: "d = duplicate_record f (lines_of stmt (walk_bindings tree)) stmt"
    and l: "1 < length (lines_of stmt (walk_bindings tree))" by blast
  from l have "lines_of stmt (walk_bindings tree) \<noteq> []" by auto
  then have "(stmt, lines_of stmt (walk_bindings tree))
      \<in> set (import_statements (extract_imports tree))"
    unfolding extract_imports_fold statements_set by simp
  with l d show ?L unfolding duplicate_results_mem by blast
qed

subsection \<open>Failures of reading and parsing\<close>

text \<open>
  C3, as the code has it: a failure of reading or parsing of the classes
  \<^verbatim>\<open>FileNotFoundError\<close>, \<^verbatim>\<open>PermissionError\<close> and \<^verbatim>\<open>SyntaxError\<close> does not leave the
  analyzer as an exception; the analyzer returns exactly one error record with the file and
  the message, the message of a syntax error prefixed with \<^verbatim>\<open>SyntaxError: \<close>, and no
  duplicate finding.
\<close>

theorem handled_failures_become_one_record:
  "find_unused_and_duplicate_imports_in_file iter frames filename (Raises (FileNotFoundError msg))
     = Inr ([[(''file'', PyStr filename), (''error'', PyStr msg)]], [])
   \<and> find_unused_and_duplicate_imports_in_file iter frames filename (Raises (PermissionError msg))
     = Inr ([[(''file'', PyStr filename), (''error'', PyStr msg)]], [])
   \<and> find_unused_and_duplicate_imports_in_file iter frames filename (Raises (SyntaxError msg))
     = Inr ([[(''file'', PyStr filename), (''error'', PyStr (''SyntaxError: '' @ msg))]], [])"
  by (simp add: error_record_def)

text \<open>
  C3 as stated fails: a file whose bytes are not UTF-8 makes \<^verbatim>\<open>f.read()\<close> raise
  \<^verbatim>\<open>UnicodeDecodeError\<close>, which neither \<^verbatim>\<open>except\<close> clause names, so it leaves the
  analyzer.
\<close>

theorem decode_error_escapes:
  "find_unused_and_duplicate_imports_in_file ascending cpython_frames ''latin1.py''
     (Raises (UnicodeDecodeError ''invalid start byte''))
   = Inl (UnicodeDecodeError ''invalid start byte'')"
  by simp

subsection \<open>Evaluating concrete inputs\<close>

lemmas eval_defs = walk_def extract_imports_def visit_import_def record_binding_def empty_state_def
  import_name_def import_stmt_str_def as_suffix_def first_segment_def from_name_def
  from_stmt_str_def module_str_def analyze_tree_def unused_record_def duplicate_record_def
  duplicate_results_def ascending_def descending_def
  walk_bindings_def preorder_bindings_def last_named_def named_def lines_of_def
  bound_names_def usage_set_def unused_names_def
  cpython_frames_def alias_nodes_def eval_nat_numeral

lemma set_iteration_ascending: "set_iteration ascending"
  by (simp add: set_iteration_def ascending_def)

lemma set_iteration_descending: "set_iteration descending"
  by (simp add: set_iteration_def descending_def)


subsection \<open>Unused imports\<close>

lemma set_iteration_singleton: "set_iteration iter \<Longrightarrow> iter {x} = [x]"
proof -
  assume "set_iteration iter"
  then have "set (iter {x}) = {x}" and "distinct (iter {x})"
    by (simp_all add: set_iteration_def)
  then show ?thesis
    by (cases "iter {x}") (auto simp: insert_eq_iff split: if_splits dest: subset_singletonD)
qed

lemma last_named_preorder:
  "last_named nm (walk_bindings tree) = Some (l, s) \<Longrightarrow> (nm, l, s) \<in> set (preorder_bindings tree)"
  using last_named_Some[of nm "walk_bindings tree" l s] by (simp add: set_walk_bindings)

lemma sum_of_import_free: "concat (map bindings_of (preorder (sum_of n))) = []"
  by (induction n) simp_all

lemma sum_of_name_free: "concat (map name_id (preorder (sum_of n))) = []"
  by (induction n) simp_all

lemma frames_needed_sum_of: "frames_needed (sum_of n) = 2 * n + 3"
  by (induction n) simp_all

lemma frames_needed_deep_sum: "frames_needed deep_sum = 1005"
  by (simp add: deep_sum_def frames_needed_sum_of)

text \<open>
  C1, as the code has it: for a file that parses and any iteration order of the set, when
  the visitor needs no more nested calls on the tree than the call stack has room for, the
  analyzer returns exactly one unused finding for each bound name of the import statements
  of the tree that is not the identifier of any name node of the tree, and none for any
  other name: the findings are, in order, those of a list without repetition of exactly
  these names, each made from the line and the statement text of a binding of its name.
\<close>

theorem unused_names_are_imports_minus_usages:
  assumes "set_iteration iter" and "frames_needed tree \<le> frames"
  shows "\<exists>rs ds nms.
            find_unused_and_duplicate_imports_in_file iter frames filename (Parsed tree) = Inr (rs, ds)
          \<and> set nms = bound_names tree - usage_set tree
          \<and> distinct nms
          \<and> list_all2 (\<lambda>nm r. \<exists>l s. (nm, l, s) \<in> set (preorder_bindings tree)
                                  \<and> r = unused_record filename l s) nms rs"
proof -
  obtain rs where rs: "analyze_tree iter frames filename tree
            = Inr (rs, duplicate_results filename (import_statements (extract_imports tree)))"
    and l: "list_all2 (\<lambda>nm r. \<exists>l s. last_named nm (walk_bindings tree) = Some (l, s)
                                  \<and> r = unused_record filename l s) (unused_names iter tree) rs"
    using analyze_tree_result[OF assms] by blast
  have "list_all2 (\<lambda>nm r. \<exists>l s. (nm, l, s) \<in> set (preorder_bindings tree)
                                      \<and> r = unused_record filename l s)
                 (unused_names iter tree) rs"
    by (rule list_all2_mono[OF l]) (blast dest: last_named_preorder)
  with rs show ?thesis
    using unused_names_props[OF assms(1), of tree] by auto
qed

text \<open>The file \<^verbatim>\<open>import os\<close>, \<^verbatim>\<open>import sys\<close>, \<^verbatim>\<open>print(os.getcwd())\<close>: only \<^verbatim>\<open>sys\<close> is
  reported.\<close>

theorem unused_names_are_imports_minus_usages_witness:
  "set_iteration ascending
   \<and> frames_needed os_sys_print \<le> cpython_frames
   \<and> bound_names os_sys_print - usage_set os_sys_print = {''sys''}
   \<and> find_unused_and_duplicate_imports_in_file ascending cpython_frames ''m.py'' (Parsed os_sys_print)
      = Inr ([[(''file'', PyStr ''m.py''), (''line'', PyInt 2), (''import_statement'', PyStr ''import sys'')]], [])
   \<and> (\<exists>nms. set nms = {''sys''} \<and> distinct nms
          \<and> list_all2 (\<lambda>nm r. \<exists>l s. (nm, l, s) \<in> set (preorder_bindings os_sys_print)
                                      \<and> r = unused_record ''m.py'' l s) nms
               [[(''file'', PyStr ''m.py''), (''line'', PyInt 2), (''import_statement'', PyStr ''import sys'')]])"
proof -
  have h: "frames_needed os_sys_print \<le> cpython_frames"
    by (simp add: os_sys_print_def cpython_frames_def)
  have b: "bound_names os_sys_print - usage_set os_sys_print = {''sys''}"
    by (simp add: os_sys_print_def eval_defs insert_Diff_if)
  have r: "find_unused_and_duplicate_imports_in_file ascending cpython_frames ''m.py'' (Parsed os_sys_print)
      = Inr ([[(''file'', PyStr ''m.py''), (''line'', PyInt 2), (''import_statement'', PyStr ''import sys'')]], [])"
    by (simp add: os_sys_print_def eval_defs insert_Diff_if)
  have e: "\<exists>nms. set nms = {''sys''} \<and> distinct nms
          \<and> list_all2 (\<lambda>nm r. \<exists>l s. (nm, l, s) \<in> set (preorder_bindings os_sys_print)
                                      \<and> r = unused_record ''m.py'' l s) nms
               [[(''file'', PyStr ''m.py''), (''line'', PyInt 2), (''import_statement'', PyStr ''import sys'')]]"
    using unused_names_are_imports_minus_usages[OF set_iteration_ascending h, of "''m.py''"]
    unfolding r b by auto
  show ?thesis using set_iteration_ascending h b r e by blast
qed

text \<open>
  C1 as stated fails on a file that parses and is deep: for \<^verbatim>\<open>import os\<close> followed by
  \<^verbatim>\<open>x = 1 + 1 + ... + 1\<close> with 500 terms the name \<^verbatim>\<open>os\<close> is imported and is the identifier
  of no name node, the visitor needs 1005 nested calls where 995 fit, and the analyzer
  ends in \<^verbatim>\<open>RecursionError\<close> at line 57 instead of reporting \<^verbatim>\<open>os\<close>.
\<close>

theorem deep_file_reports_nothing:
  "bound_names deep_sum - usage_set deep_sum = {''os''}
   \<and> find_unused_and_duplicate_imports_in_file ascending cpython_frames ''m.py'' (Parsed deep_sum)
      = Inl RecursionError"
proof -
  have "bound_names deep_sum = {''os''}"
    by (simp add: deep_sum_def bound_names_def preorder_bindings_def sum_of_import_free
        import_name_def first_segment_def)
  moreover have "usage_set deep_sum = {''x''}"
    by (simp add: deep_sum_def usage_set_def sum_of_name_free)
  moreover have "analyze_tree ascending cpython_frames ''m.py'' deep_sum = Inl RecursionError"
    by (rule analyze_tree_deep) (simp add: frames_needed_deep_sum cpython_frames_def)
  ultimately show ?thesis by simp
qed

text \<open>
  C2, as the code has it: the dictionary \<^verbatim>\<open>import_aliases\<close> maps a bound name to the
  line and the statement text of the last binding of that name in the order of
  \<^verbatim>\<open>ast.walk\<close>, which is breadth-first: an import nested in a function or class body
  comes after every import of a smaller depth, whatever its line. When the visitor needs no
  more nested calls on the tree than the call stack has room for, the analyzer returns; and
  whenever it returns, each unused finding is made from that entry. When all import
  statements of the file are statements of the module body, that binding is the last one in
  pre-order.
\<close>

theorem aliases_hold_last_binding_of_walk:
  assumes "set_iteration iter"
  shows "import_aliases (extract_imports tree) nm = last_named nm (walk_bindings tree)
       \<and> (frames_needed tree \<le> frames \<longrightarrow>
            (\<exists>rs ds. find_unused_and_duplicate_imports_in_file iter frames filename (Parsed tree)
                        = Inr (rs, ds)
               \<and> list_all2 (\<lambda>nm r. \<exists>l s. last_named nm (walk_bindings tree) = Some (l, s)
                                         \<and> r = unused_record filename l s)
                    (unused_names iter tree) rs))
       \<and> (\<forall>rs ds. find_unused_and_duplicate_imports_in_file iter frames filename (Parsed tree)
                        = Inr (rs, ds)
             \<longrightarrow> list_all2 (\<lambda>nm r. \<exists>l s. last_named nm (walk_bindings tree) = Some (l, s)
                                         \<and> r = unused_record filename l s)
                    (unused_names iter tree) rs)
       \<and> (imports_at_top_level tree \<longrightarrow>
            import_aliases (extract_imports tree) nm = last_named nm (preorder_bindings tree))"
proof -
  have 1: "import_aliases (extract_imports tree) nm = last_named nm (walk_bindings tree)"
    by (rule aliases_extract)
  have 2: "frames_needed tree \<le> frames \<longrightarrow>
            (\<exists>rs ds. find_unused_and_duplicate_imports_in_file iter frames filename (Parsed tree)
                        = Inr (rs, ds)
               \<and> list_all2 (\<lambda>nm r. \<exists>l s. last_named nm (walk_bindings tree) = Some (l, s)
                                         \<and> r = unused_record filename l s)
                    (unused_names iter tree) rs)"
  proof
    assume h: "frames_needed tree \<le> frames"
    show "\<exists>rs ds. find_unused_and_duplicate_imports_in_file iter frames filename (Parsed tree)
                        = Inr (rs, ds)
               \<and> list_all2 (\<lambda>nm r. \<exists>l s. last_named nm (walk_bindings tree) = Some (l, s)
                                         \<and> r = unused_record filename l s)
                    (unused_names iter tree) rs"
      using analyze_tree_result[OF assms h, of filename] by simp blast
  qed
  have 3: "\<forall>rs ds. find_unused_and_duplicate_imports_in_file iter frames filename (Parsed tree)
                        = Inr (rs, ds)
             \<longrightarrow> list_all2 (\<lambda>nm r. \<exists>l s. last_named nm (walk_bindings tree) = Some (l, s)
                                         \<and> r = unused_record filename l s)
                    (unused_names iter tree) rs"
    using analyze_tree_Inr(2) by simp
  have 4: "imports_at_top_level tree \<longrightarrow>
            import_aliases (extract_imports tree) nm = last_named nm (preorder_bindings tree)"
    by (simp add: aliases_extract walk_bindings_top_level)
  from 1 2 3 4 show ?thesis by blast
qed

theorem aliases_hold_last_binding_of_walk_witness:
  "set_iteration ascending
   \<and> import_aliases (extract_imports nested_rebinding) ''x''
       = last_named ''x'' (walk_bindings nested_rebinding)
   \<and> last_named ''x'' (walk_bindings nested_rebinding) = Some (2, ''import os as x'')
   \<and> frames_needed nested_rebinding \<le> cpython_frames
   \<and> unused_names ascending nested_rebinding = [''x'']
   \<and> (\<exists>rs ds. find_unused_and_duplicate_imports_in_file ascending cpython_frames ''m.py''
                  (Parsed nested_rebinding) = Inr (rs, ds)
          \<and> list_all2 (\<lambda>nm r. \<exists>l s. last_named nm (walk_bindings nested_rebinding) = Some (l, s)
                                    \<and> r = unused_record ''m.py'' l s) [''x''] rs)
   \<and> imports_at_top_level two_json
   \<and> import_aliases (extract_imports two_json) ''json''
       = last_named ''json'' (preorder_bindings two_json)
   \<and> last_named ''json'' (preorder_bindings two_json) = Some (2, ''import json'')"
proof (intro conjI)
  show "set_iteration ascending" by (rule set_iteration_ascending)
  show "import_aliases (extract_imports nested_rebinding) ''x''
       = last_named ''x'' (walk_bindings nested_rebinding)"
    using aliases_hold_last_binding_of_walk[OF set_iteration_ascending,
        where tree = nested_rebinding and nm = "''x''"]
    by blast
  show "last_named ''x'' (walk_bindings nested_rebinding) = Some (2, ''import os as x'')"
    by (simp add: nested_rebinding_def eval_defs)
  show h: "frames_needed nested_rebinding \<le> cpython_frames"
    by (simp add: nested_rebinding_def cpython_frames_def)
  show u: "unused_names ascending nested_rebinding = [''x'']"
    by (simp add: nested_rebinding_def eval_defs)
  show "\<exists>rs ds. find_unused_and_duplicate_imports_in_file ascending cpython_frames ''m.py''
                  (Parsed nested_rebinding) = Inr (rs, ds)
          \<and> list_all2 (\<lambda>nm r. \<exists>l s. last_named nm (walk_bindings nested_rebinding) = Some (l, s)
                                    \<and> r = unused_record ''m.py'' l s) [''x''] rs"
    using aliases_hold_last_binding_of_walk[OF set_iteration_ascending,
        where tree = nested_rebinding and frames = cpython_frames and filename = "''m.py''"] h
    unfolding u by blast
  show t: "imports_at_top_level two_json"
    by (simp add: two_json_def imports_at_top_level_def)
  show "import_aliases (extract_imports two_json) ''json''
       = last_named ''json'' (preorder_bindings two_json)"
    using aliases_hold_last_binding_of_walk[OF set_iteration_ascending,
        where tree = two_json and nm = "''json''"] t
    by blast
  show "last_named ''json'' (preorder_bindings two_json) = Some (2, ''import json'')"
    by (simp add: two_json_def eval_defs)
qed

text \<open>
  C2 as stated fails on \<^verbatim>\<open>def f(): import os as x\<close> (line 2) followed by
  \<^verbatim>\<open>import sys as x\<close> (line 3): the last import of \<^verbatim>\<open>x\<close> in pre-order is the one of
  line 3, the analyzer reports the one of line 2.
\<close>

theorem nested_import_is_not_last_in_preorder:
  "last_named ''x'' (preorder_bindings nested_rebinding) = Some (3, ''import sys as x'')
   \<and> import_aliases (extract_imports nested_rebinding) ''x'' = Some (2, ''import os as x'')
   \<and> find_unused_and_duplicate_imports_in_file ascending cpython_frames ''m.py'' (Parsed nested_rebinding)
      = Inr ([[(''file'', PyStr ''m.py''), (''line'', PyInt 2),
               (''import_statement'', PyStr ''import os as x'')]], [])"
  by (simp add: nested_rebinding_def eval_defs)

subsection \<open>Duplicate imports\<close>

lemma lines_of_sorted:
  "sorted (map (\<lambda>b. fst (snd b)) bs) \<Longrightarrow> sorted (lines_of stmt bs)"
  unfolding lines_of_def by (rule sorted_filter)

text \<open>
  C4, as the code has it: the list of line numbers of a duplicate finding holds the lines
  of the bindings that have the finding's statement text, in the order in which
  \<^verbatim>\<open>ast.walk\<close> reaches them; the code does not sort it. It is ascending whenever the
  walk reaches the import statements of the file at non-decreasing lines, as it does when
  all import statements are statements of the module body and the lines do not decrease in
  pre-order.
\<close>

theorem duplicate_lines_in_walk_order:
  assumes "find_unused_and_duplicate_imports_in_file iter frames filename (Parsed tree) = Inr (rs, ds)"
    and "d \<in> set ds"
  shows "\<exists>stmt. d = duplicate_record filename (lines_of stmt (walk_bindings tree)) stmt
           \<and> (sorted (map (\<lambda>b. fst (snd b)) (walk_bindings tree))
                \<longrightarrow> sorted (lines_of stmt (walk_bindings tree)))
           \<and> (imports_at_top_level tree
                \<and> sorted (map (\<lambda>b. fst (snd b)) (preorder_bindings tree))
                \<longrightarrow> sorted (lines_of stmt (walk_bindings tree)))"
proof -
  from assms(1) have "ds = duplicate_results filename (import_statements (extract_imports tree))"
    by (simp add: analyze_tree_Inr(1))
  with assms(2) have "d \<in> set (duplicate_results filename (import_statements (extract_imports tree)))"
    by simp
  then obtain stmt where
    "d = duplicate_record filename (lines_of stmt (walk_bindings tree)) stmt"
    unfolding duplicate_results_set by blast
  then show ?thesis using lines_of_sorted walk_bindings_top_level by metis
qed

theorem duplicate_lines_in_walk_order_witness:
  "find_unused_and_duplicate_imports_in_file ascending cpython_frames ''m.py'' (Parsed two_json)
     = Inr ([[(''file'', PyStr ''m.py''), (''line'', PyInt 2), (''import_statement'', PyStr ''import json'')]],
            [[(''file'', PyStr ''m.py''), (''lines'', PyList [1, 2]), (''import_statement'', PyStr ''import json'')]])
   \<and> sorted (map (\<lambda>b. fst (snd b)) (walk_bindings two_json))
   \<and> imports_at_top_level two_json
   \<and> sorted (map (\<lambda>b. fst (snd b)) (preorder_bindings two_json))
   \<and> (\<exists>stmt. [(''file'', PyStr ''m.py''), (''lines'', PyList [1, 2]), (''import_statement'', PyStr ''import json'')]
               = duplicate_record ''m.py'' (lines_of stmt (walk_bindings two_json)) stmt
             \<and> sorted (lines_of stmt (walk_bindings two_json)))"
proof -
  have r: "find_unused_and_duplicate_imports_in_file ascending cpython_frames ''m.py'' (Parsed two_json)
     = Inr ([[(''file'', PyStr ''m.py''), (''line'', PyInt 2), (''import_statement'', PyStr ''import json'')]],
            [[(''file'', PyStr ''m.py''), (''lines'', PyList [1, 2]), (''import_statement'', PyStr ''import json'')]])"
    by (simp add: two_json_def eval_defs)
  have s: "sorted (map (\<lambda>b. fst (snd b)) (walk_bindings two_json))"
    by (simp add: two_json_def eval_defs)
  have t: "imports_at_top_level two_json"
    by (simp add: two_json_def imports_at_top_level_def)
  have p: "sorted (map (\<lambda>b. fst (snd b)) (preorder_bindings two_json))"
    by (simp add: two_json_def eval_defs)
  have "\<exists>stmt. [(''file'', PyStr ''m.py''), (''lines'', PyList [1, 2]), (''import_statement'', PyStr ''import json'')]
               = duplicate_record ''m.py'' (lines_of stmt (walk_bindings two_json)) stmt
             \<and> sorted (lines_of stmt (walk_bindings two_json))"
    using s duplicate_lines_in_walk_order[OF r, of "[(''file'', PyStr ''m.py''), (''lines'', PyList [1, 2]), (''import_statement'', PyStr ''import json'')]"]
    by auto
  with r s t p show ?thesis by blast
qed

text \<open>
  C4 as stated fails across nesting depths: for \<^verbatim>\<open>def f(): import os\<close> (line 2) followed
  by \<^verbatim>\<open>import os\<close> (line 3) on the top level, the walk reaches line 3 before line 2 and
  the finding lists the lines as 3, 2.
\<close>

theorem nested_duplicate_lines_not_ascending:
  "find_unused_and_duplicate_imports_in_file ascending cpython_frames ''m.py'' (Parsed nested_duplicate)
     = Inr ([[(''file'', PyStr ''m.py''), (''line'', PyInt 2), (''import_statement'', PyStr ''import os'')]],
            [[(''file'', PyStr ''m.py''), (''lines'', PyList [3, 2]), (''import_statement'', PyStr ''import os'')]])
   \<and> \<not> sorted [3, 2 :: int]"
  by (simp add: nested_duplicate_def eval_defs)



text \<open>
  C8: for \<^verbatim>\<open>import json\<close> on line 1 and again on line 2, and nothing else, the analyzer
  returns one unused finding with line 2 and one duplicate finding with the lines 1, 2,
  both with the text \<^verbatim>\<open>import json\<close>, whatever the iteration order of the set, as soon as
  the call stack has room for the six nested calls of the visitor on this tree (\<^verbatim>\<open>visit\<close>
  and \<^verbatim>\<open>generic_visit\<close> for the module, for an import, and for its \<^verbatim>\<open>alias\<close>).
\<close>

theorem two_json_findings:
  assumes "set_iteration iter" and "6 \<le> frames"
  shows "find_unused_and_duplicate_imports_in_file iter frames filename
           (Parsed (Node [Import 1 [Alias ''json'' None], Import 2 [Alias ''json'' None]]))
         = Inr ([[(''file'', PyStr filename), (''line'', PyInt 2),
                  (''import_statement'', PyStr ''import json'')]],
                [[(''file'', PyStr filename), (''lines'', PyList [1, 2]),
                  (''import_statement'', PyStr ''import json'')]])"
proof -
  from assms(2) obtain k where "frames = 6 + k" by (auto simp: le_iff_add)
  then have k: "frames = Suc (Suc (Suc (Suc (Suc (Suc k)))))" by simp
  show ?thesis unfolding k
    by (simp add: eval_defs set_iteration_singleton[OF assms(1)])
qed

theorem two_json_findings_witness:
  "set_iteration descending
   \<and> 6 \<le> cpython_frames
   \<and> find_unused_and_duplicate_imports_in_file descending cpython_frames ''m.py''
           (Parsed (Node [Import 1 [Alias ''json'' None], Import 2 [Alias ''json'' None]]))
         = Inr ([[(''file'', PyStr ''m.py''), (''line'', PyInt 2),
                  (''import_statement'', PyStr ''import json'')]],
                [[(''file'', PyStr ''m.py''), (''lines'', PyList [1, 2]),
                  (''import_statement'', PyStr ''import json'')]])"
proof -
  have d: "6 \<le> cpython_frames" by (simp add: cpython_frames_def)
  show ?thesis
    using set_iteration_descending d
      two_json_findings[OF set_iteration_descending d, of "''m.py''"]
    by simp
qed

subsection \<open>The shape of the records\<close>

lemma has_key_unused [simp]:
  "has_key ''import_statement'' (unused_record f l s)" "\<not> has_key ''error'' (unused_record f l s)"
  by (simp_all add: has_key_def unused_record_def)

lemma has_key_error [simp]:
  "has_key ''error'' (error_record f m)" "\<not> has_key ''import_statement'' (error_record f m)"
  by (simp_all add: has_key_def error_record_def)

lemma unused_results_shape:
  "unused_results f al nms = Inr rs \<Longrightarrow> r \<in> set rs \<Longrightarrow> \<exists>l s. r = unused_record f l s"
proof (induction nms arbitrary: rs)
  case Nil
  then show ?case by simp
next
  case (Cons nm nms)
  from Cons.prems(1) obtain l s rs' where a: "al nm = Some (l, s)"
    and b: "unused_results f al nms = Inr rs'" and c: "rs = unused_record f l s # rs'"
    by (auto split: option.splits sum.splits)
  from Cons.prems(2) c have "r = unused_record f l s \<or> r \<in> set rs'" by simp
  then show ?case using Cons.IH[OF b] by blast
qed

lemma analyze_tree_shape:
  assumes "analyze_tree iter frames f tree = Inr (rs, ds)"
  shows "\<forall>r \<in> set rs. \<exists>l s. r = unused_record f l s"
    and "\<forall>d \<in> set ds. \<exists>ls s. d = duplicate_record f ls s"
proof -
  show "\<forall>r \<in> set rs. \<exists>l s. r = unused_record f l s"
    using unused_results_shape[OF analyze_tree_Inr(4)[OF assms]] by blast
  show "\<forall>d \<in> set ds. \<exists>ls s. d = duplicate_record f ls s"
    unfolding analyze_tree_Inr(1)[OF assms] using duplicate_results_mem by blast
qed

lemma analyzer_Raises:
  assumes "find_unused_and_duplicate_imports_in_file iter frames f (Raises e) = Inr (rs, ds)"
  shows "\<exists>m. rs = [error_record f m] \<and> ds = []"
  using assms by (cases e) auto

lemma collect_file_Inr:
  assumes "find_unused_and_duplicate_imports_in_file iter frames file (read_and_parse fs file) = Inr (rs, ds)"
  shows "collect_file iter frames fs file acc =
     Inr (acc\<lparr>all_unused := all_unused acc @ filter (has_key ''import_statement'') rs,
              all_duplicates := all_duplicates acc @ ds,
              all_errors := all_errors acc @ filter (has_key ''error'') rs\<rparr>)"
  by (simp add: collect_file_def assms)

lemma collect_file_Inl:
  assumes "find_unused_and_duplicate_imports_in_file iter frames file (read_and_parse fs file) = Inl e"
  shows "collect_file iter frames fs file acc = Inl e"
  by (simp add: collect_file_def assms)

text \<open>
  C10, as the code has it: whenever the analyzer returns for a file, every record of its
  first list has exactly one of the keys \<^verbatim>\<open>error\<close> and \<^verbatim>\<open>import_statement\<close>; after a
  failure of reading or parsing the first list is one record with the key \<^verbatim>\<open>error\<close> and
  the second list is empty, after a successful parse every record has the key
  \<^verbatim>\<open>import_statement\<close>; and the caller extends its accumulators by two lists that
  together hold every record of the first list once, the records with the key
  \<^verbatim>\<open>import_statement\<close> and without the key \<^verbatim>\<open>error\<close> in the unused findings, the records
  with the key \<^verbatim>\<open>error\<close> and without the key \<^verbatim>\<open>import_statement\<close> in the errors.
\<close>

theorem channel_demultiplexed_by_keys:
  assumes "read_and_parse fs file = outcome"
    and "find_unused_and_duplicate_imports_in_file iter frames file outcome = Inr (rs, ds)"
  shows "(\<forall>r \<in> set rs. has_key ''error'' r \<noteq> has_key ''import_statement'' r)
       \<and> (case outcome of
            Raises e \<Rightarrow> (\<exists>r. rs = [r] \<and> has_key ''error'' r) \<and> ds = []
          | Parsed tree \<Rightarrow> list_all (has_key ''import_statement'') rs)
       \<and> (\<exists>us es.
             collect_file iter frames fs file acc
               = Inr (acc\<lparr>all_unused := all_unused acc @ us,
                          all_duplicates := all_duplicates acc @ ds,
                          all_errors := all_errors acc @ es\<rparr>)
           \<and> mset us + mset es = mset rs
           \<and> list_all (\<lambda>r. has_key ''import_statement'' r \<and> \<not> has_key ''error'' r) us
           \<and> list_all (\<lambda>r. has_key ''error'' r \<and> \<not> has_key ''import_statement'' r) es)"
proof -
  let ?us = "filter (has_key ''import_statement'') rs"
  let ?es = "filter (has_key ''error'') rs"
  have c: "collect_file iter frames fs file acc
               = Inr (acc\<lparr>all_unused := all_unused acc @ ?us,
                          all_duplicates := all_duplicates acc @ ds,
                          all_errors := all_errors acc @ ?es\<rparr>)"
    by (rule collect_file_Inr) (simp add: assms)
  have k: "(\<forall>r \<in> set rs. has_key ''error'' r \<noteq> has_key ''import_statement'' r)
       \<and> (case outcome of
            Raises e \<Rightarrow> (\<exists>r. rs = [r] \<and> has_key ''error'' r) \<and> ds = []
          | Parsed tree \<Rightarrow> list_all (has_key ''import_statement'') rs)
       \<and> mset ?us + mset ?es = mset rs"
  proof (cases outcome)
    case (Parsed tree)
    with assms(2) have "analyze_tree iter frames file tree = Inr (rs, ds)" by simp
    then have s: "\<forall>r \<in> set rs. \<exists>l s. r = unused_record file l s"
      by (rule analyze_tree_shape(1))
    then have k: "\<forall>r \<in> set rs. has_key ''import_statement'' r \<and> \<not> has_key ''error'' r"
      by auto
    then have "?es = []" "?us = rs"
      by (simp_all add: filter_empty_conv filter_id_conv)
    with k Parsed show ?thesis by (simp add: list_all_iff)
  next
    case (Raises e)
    with assms(2) obtain m where "rs = [error_record file m]" "ds = []"
      using analyzer_Raises by blast
    with Raises show ?thesis by simp
  qed
  have u: "list_all (\<lambda>r. has_key ''import_statement'' r \<and> \<not> has_key ''error'' r) ?us"
    using k by (auto simp: list_all_iff)
  have e: "list_all (\<lambda>r. has_key ''error'' r \<and> \<not> has_key ''import_statement'' r) ?es"
    using k by (auto simp: list_all_iff)
  from c k u e have "\<exists>us es.
             collect_file iter frames fs file acc
               = Inr (acc\<lparr>all_unused := all_unused acc @ us,
                          all_duplicates := all_duplicates acc @ ds,
                          all_errors := all_errors acc @ es\<rparr>)
           \<and> mset us + mset es = mset rs
           \<and> list_all (\<lambda>r. has_key ''import_statement'' r \<and> \<not> has_key ''error'' r) us
           \<and> list_all (\<lambda>r. has_key ''error'' r \<and> \<not> has_key ''import_statement'' r) es"
    by blast
  with k show ?thesis by blast
qed

theorem channel_demultiplexed_by_keys_witness:
  "read_and_parse fs_project ''proj/bad.py'' = Raises (SyntaxError ''invalid syntax'')
   \<and> find_unused_and_duplicate_imports_in_file ascending cpython_frames ''proj/bad.py''
       (Raises (SyntaxError ''invalid syntax''))
     = Inr ([[(''file'', PyStr ''proj/bad.py''), (''error'', PyStr ''SyntaxError: invalid syntax'')]], [])
   \<and> has_key ''error'' [(''file'', PyStr ''proj/bad.py''), (''error'', PyStr ''SyntaxError: invalid syntax'')]
   \<and> \<not> has_key ''import_statement'' [(''file'', PyStr ''proj/bad.py''), (''error'', PyStr ''SyntaxError: invalid syntax'')]
   \<and> collect_file ascending cpython_frames fs_project ''proj/bad.py'' no_findings
     = Inr \<lparr>all_unused = [], all_duplicates = [],
            all_errors = [[(''file'', PyStr ''proj/bad.py''), (''error'', PyStr ''SyntaxError: invalid syntax'')]]\<rparr>
   \<and> read_and_parse fs_project ''proj/good.py'' = Parsed two_json
   \<and> find_unused_and_duplicate_imports_in_file ascending cpython_frames ''proj/good.py'' (Parsed two_json)
     = Inr ([[(''file'', PyStr ''proj/good.py''), (''line'', PyInt 2), (''import_statement'', PyStr ''import json'')]],
            [[(''file'', PyStr ''proj/good.py''), (''lines'', PyList [1, 2]), (''import_statement'', PyStr ''import json'')]])
   \<and> has_key ''import_statement'' [(''file'', PyStr ''proj/good.py''), (''line'', PyInt 2), (''import_statement'', PyStr ''import json'')]
   \<and> \<not> has_key ''error'' [(''file'', PyStr ''proj/good.py''), (''line'', PyInt 2), (''import_statement'', PyStr ''import json'')]
   \<and> collect_file ascending cpython_frames fs_project ''proj/good.py'' no_findings
     = Inr \<lparr>all_unused = [[(''file'', PyStr ''proj/good.py''), (''line'', PyInt 2), (''import_statement'', PyStr ''import json'')]],
            all_duplicates = [[(''file'', PyStr ''proj/good.py''), (''lines'', PyList [1, 2]), (''import_statement'', PyStr ''import json'')]],
            all_errors = []\<rparr>"
proof -
  have pa: "read_and_parse fs_project ''proj/bad.py'' = Raises (SyntaxError ''invalid syntax'')"
    by (simp add: fs_project_def)
  have pb: "read_and_parse fs_project ''proj/good.py'' = Parsed two_json"
    by (simp add: fs_project_def)
  have a: "find_unused_and_duplicate_imports_in_file ascending cpython_frames ''proj/bad.py''
       (Raises (SyntaxError ''invalid syntax''))
     = Inr ([[(''file'', PyStr ''proj/bad.py''), (''error'', PyStr ''SyntaxError: invalid syntax'')]], [])"
    by (simp add: error_record_def)
  have b: "find_unused_and_duplicate_imports_in_file ascending cpython_frames ''proj/good.py'' (Parsed two_json)
     = Inr ([[(''file'', PyStr ''proj/good.py''), (''line'', PyInt 2), (''import_statement'', PyStr ''import json'')]],
            [[(''file'', PyStr ''proj/good.py''), (''lines'', PyList [1, 2]), (''import_statement'', PyStr ''import json'')]])"
    by (simp add: two_json_def eval_defs)
  have c: "\<forall>r \<in> set [[(''file'', PyStr ''proj/bad.py''), (''error'', PyStr ''SyntaxError: invalid syntax'')]].
           has_key ''error'' r \<noteq> has_key ''import_statement'' r"
    using channel_demultiplexed_by_keys[OF pa a] by blast
  have d: "\<forall>r \<in> set [[(''file'', PyStr ''proj/good.py''), (''line'', PyInt 2), (''import_statement'', PyStr ''import json'')]].
           has_key ''error'' r \<noteq> has_key ''import_statement'' r"
    using channel_demultiplexed_by_keys[OF pb b] by blast
  have ca: "collect_file ascending cpython_frames fs_project ''proj/bad.py'' no_findings
     = Inr \<lparr>all_unused = [], all_duplicates = [],
            all_errors = [[(''file'', PyStr ''proj/bad.py''), (''error'', PyStr ''SyntaxError: invalid syntax'')]]\<rparr>"
    using a by (simp add: collect_file_def pa no_findings_def has_key_def)
  have cb: "collect_file ascending cpython_frames fs_project ''proj/good.py'' no_findings
     = Inr \<lparr>all_unused = [[(''file'', PyStr ''proj/good.py''), (''line'', PyInt 2), (''import_statement'', PyStr ''import json'')]],
            all_duplicates = [[(''file'', PyStr ''proj/good.py''), (''lines'', PyList [1, 2]), (''import_statement'', PyStr ''import json'')]],
            all_errors = []\<rparr>"
    using b by (simp add: collect_file_def pb no_findings_def has_key_def)
  show ?thesis
    using pa pb a b c d ca cb by (simp add: has_key_def)
qed

text \<open>
  C10 as stated fails for a file whose failure the analyzer does not catch: reading a file
  that is not UTF-8 fails, and there is neither a first list with one error record nor a
  second list, the exception leaves the analyzer and the caller.
\<close>

theorem unhandled_failure_leaves_no_lists:
  "read_and_parse fs_undecodable ''latin1.py'' = Raises (UnicodeDecodeError ''invalid start byte'')
   \<and> find_unused_and_duplicate_imports_in_file ascending cpython_frames ''latin1.py''
       (read_and_parse fs_undecodable ''latin1.py'')
     = Inl (UnicodeDecodeError ''invalid start byte'')
   \<and> collect_file ascending cpython_frames fs_undecodable ''latin1.py'' no_findings
     = Inl (UnicodeDecodeError ''invalid start byte'')"
  by (simp add: fs_undecodable_def collect_file_def)

subsection \<open>The final sort and the loop over the files\<close>

lemma file_line_key_unused: "unused_shaped r \<Longrightarrow> file_line_key r = Inr (unused_key r)"
  by (auto simp: unused_shaped_def unused_key_def file_line_key_def file_key_def getitem_def
      unused_record_def)

lemma file_lines_key_duplicate: "duplicate_shaped r \<Longrightarrow> file_lines_key r = Inr (duplicate_key r)"
  by (auto simp: duplicate_shaped_def duplicate_key_def file_lines_key_def file_key_def
      getitem_def duplicate_record_def)

lemma file_key_error: "error_shaped r \<Longrightarrow> file_key r = Inr (error_key r)"
  by (auto simp: error_shaped_def error_key_def file_key_def getitem_def error_record_def)

lemma decorate_total:
  "\<forall>x \<in> set xs. key x = Inr (k x) \<Longrightarrow> decorate key xs = Inr (map (\<lambda>x. (k x, x)) xs)"
  by (induction xs) simp_all

lemma insort_decorated:
  "insort_key fst (k x, x) (map (\<lambda>x. (k x, x)) ys) = map (\<lambda>x. (k x, x)) (insort_key k x ys)"
  by (induction ys) simp_all

lemma sort_decorated:
  "sort_key fst (map (\<lambda>x. (k x, x)) xs) = map (\<lambda>x. (k x, x)) (sort_key k xs)"
  by (induction xs) (simp_all add: insort_decorated)

lemma sorted_py_total:
  assumes "\<forall>x \<in> set xs. key x = Inr (k x)"
  shows "sorted_py key xs = Inr (sort_key k xs)"
  by (simp add: sorted_py_def decorate_total[OF assms] sort_decorated comp_def)

lemma sort_findings_well_shaped:
  assumes "well_shaped acc"
  shows "sort_findings acc = Inr (Report (sort_key unused_key (all_unused acc))
           (sort_key duplicate_key (all_duplicates acc)) (sort_key error_key (all_errors acc)))"
proof -
  have u: "sorted_py file_line_key (all_unused acc) = Inr (sort_key unused_key (all_unused acc))"
    using assms by (intro sorted_py_total) (auto simp: well_shaped_def list_all_iff file_line_key_unused)
  have d: "sorted_py file_lines_key (all_duplicates acc)
             = Inr (sort_key duplicate_key (all_duplicates acc))"
    using assms by (intro sorted_py_total) (auto simp: well_shaped_def list_all_iff file_lines_key_duplicate)
  have e: "sorted_py file_key (all_errors acc) = Inr (sort_key error_key (all_errors acc))"
    using assms by (intro sorted_py_total) (auto simp: well_shaped_def list_all_iff file_key_error)
  show ?thesis by (simp add: sort_findings_def u d e)
qed

lemma analyzer_shapes:
  assumes "find_unused_and_duplicate_imports_in_file iter frames f outcome = Inr (rs, ds)"
  shows "list_all unused_shaped (filter (has_key ''import_statement'') rs)"
    and "list_all duplicate_shaped ds"
    and "list_all error_shaped (filter (has_key ''error'') rs)"
proof -
  have "list_all unused_shaped (filter (has_key ''import_statement'') rs)
      \<and> list_all duplicate_shaped ds
      \<and> list_all error_shaped (filter (has_key ''error'') rs)"
  proof (cases outcome)
    case (Parsed tree)
    with assms have a: "analyze_tree iter frames f tree = Inr (rs, ds)" by simp
    have u: "\<forall>r \<in> set rs. unused_shaped r"
      using analyze_tree_shape(1)[OF a] unfolding unused_shaped_def by blast
    then have "\<forall>r \<in> set rs. \<not> has_key ''error'' r" by (auto simp: unused_shaped_def)
    then have "filter (has_key ''error'') rs = []" by (simp add: filter_empty_conv)
    moreover have "\<forall>d \<in> set ds. duplicate_shaped d"
      using analyze_tree_shape(2)[OF a] unfolding duplicate_shaped_def by blast
    ultimately show ?thesis using u by (simp add: list_all_iff)
  next
    case (Raises e)
    with assms obtain m where "rs = [error_record f m]" "ds = []"
      using analyzer_Raises by blast
    then show ?thesis by (auto simp: error_shaped_def)
  qed
  then show "list_all unused_shaped (filter (has_key ''import_statement'') rs)"
    and "list_all duplicate_shaped ds"
    and "list_all error_shaped (filter (has_key ''error'') rs)" by simp_all
qed

lemma collect_file_well_shaped:
  assumes "collect_file iter frames fs file acc = Inr acc'" and "well_shaped acc"
  shows "well_shaped acc'"
proof -
  from assms(1) obtain rs ds where
    a: "find_unused_and_duplicate_imports_in_file iter frames file (read_and_parse fs file) = Inr (rs, ds)"
    by (auto simp: collect_file_def split: sum.splits)
  from assms(1) have "acc' = acc\<lparr>all_unused := all_unused acc @ filter (has_key ''import_statement'') rs,
              all_duplicates := all_duplicates acc @ ds,
              all_errors := all_errors acc @ filter (has_key ''error'') rs\<rparr>"
    unfolding collect_file_Inr[OF a] by simp
  then show ?thesis
    using assms(2) analyzer_shapes[OF a] by (simp add: well_shaped_def)
qed

lemma collect_files_well_shaped:
  "collect_files iter frames fs files acc = Inr acc' \<Longrightarrow> well_shaped acc \<Longrightarrow> well_shaped acc'"
proof (induction files arbitrary: acc)
  case Nil
  then show ?case by simp
next
  case (Cons fl files)
  from Cons.prems(1) obtain acc1 where a: "collect_file iter frames fs fl acc = Inr acc1"
    and b: "collect_files iter frames fs files acc1 = Inr acc'"
    by (auto split: sum.splits)
  show ?case by (rule Cons.IH[OF b]) (rule collect_file_well_shaped[OF a Cons.prems(2)])
qed

lemma well_shaped_no_findings: "well_shaped no_findings"
  by (simp add: well_shaped_def no_findings_def)

lemma collect_file_findings:
  assumes "\<exists>rs ds. find_unused_and_duplicate_imports_in_file iter frames file (read_and_parse fs file)
             = Inr (rs, ds)"
  shows "collect_file iter frames fs file acc =
     Inr (acc\<lparr>all_unused := all_unused acc @ fst (file_findings iter frames fs file),
              all_duplicates := all_duplicates acc @ fst (snd (file_findings iter frames fs file)),
              all_errors := all_errors acc @ snd (snd (file_findings iter frames fs file))\<rparr>)"
  using assms by (auto simp: collect_file_def file_findings_def)

lemma collect_files_returns:
  "\<forall>file \<in> set files. \<exists>rs ds.
      find_unused_and_duplicate_imports_in_file iter frames file (read_and_parse fs file) = Inr (rs, ds)
   \<Longrightarrow> collect_files iter frames fs files acc =
     Inr (acc\<lparr>all_unused := all_unused acc
                  @ concat (map (\<lambda>file. fst (file_findings iter frames fs file)) files),
              all_duplicates := all_duplicates acc
                  @ concat (map (\<lambda>file. fst (snd (file_findings iter frames fs file))) files),
              all_errors := all_errors acc
                  @ concat (map (\<lambda>file. snd (snd (file_findings iter frames fs file))) files)\<rparr>)"
proof (induction files arbitrary: acc)
  case Nil
  show ?case by simp
next
  case (Cons fl files)
  have a: "\<exists>rs ds. find_unused_and_duplicate_imports_in_file iter frames fl (read_and_parse fs fl)
             = Inr (rs, ds)"
    using Cons.prems by simp
  have b: "\<forall>file \<in> set files. \<exists>rs ds.
      find_unused_and_duplicate_imports_in_file iter frames file (read_and_parse fs file) = Inr (rs, ds)"
    using Cons.prems by simp
  show ?case
    by (simp add: collect_file_findings[OF a] Cons.IH[OF b])
qed

subsection \<open>The exit status\<close>

lemmas fs_defs = find_python_files_in_directory_def path_join_def endswith_def analysed_files_def

lemma main_as_collect_files:
  assumes "analysed_files fs path \<noteq> []"
  shows "main iter frames fs path =
     (case collect_files iter frames fs (analysed_files fs path) no_findings of
        Inl e \<Rightarrow> Inl e | Inr acc \<Rightarrow> sort_findings acc)"
proof (cases "isdir fs path")
  case True
  with assms show ?thesis by (simp add: main_def analysed_files_def Let_def)
next
  case False
  with assms have "isfile fs path" by (auto simp: analysed_files_def split: if_splits)
  with False show ?thesis by (simp add: main_def analysed_files_def split: sum.splits)
qed

lemma main_returns:
  assumes "\<forall>file \<in> set (analysed_files fs path). \<exists>rs ds.
      find_unused_and_duplicate_imports_in_file iter frames file (read_and_parse fs file) = Inr (rs, ds)"
    and "analysed_files fs path \<noteq> []"
  shows "\<exists>acc. collect_files iter frames fs (analysed_files fs path) no_findings = Inr acc
           \<and> main iter frames fs path = Inr (Report (sort_key unused_key (all_unused acc))
                (sort_key duplicate_key (all_duplicates acc)) (sort_key error_key (all_errors acc)))"
proof -
  obtain acc where acc: "collect_files iter frames fs (analysed_files fs path) no_findings = Inr acc"
    using collect_files_returns[OF assms(1)] by blast
  have w: "well_shaped acc"
    by (rule collect_files_well_shaped[OF acc well_shaped_no_findings])
  have "main iter frames fs path = sort_findings acc"
    by (simp add: main_as_collect_files[OF assms(2)] acc)
  then show ?thesis using acc sort_findings_well_shaped[OF w] by simp
qed

text \<open>
  C6, as the code has it: when the analyzer raises no exception on any of the files the run
  analyses, the status is 1 exactly when the directory has no Python file or the path is
  neither a file nor a directory, and 0 otherwise, whatever the findings; in the two cases
  of status 1 the run ends in \<^verbatim>\<open>sys.exit(1)\<close> after the message on standard error and
  produces no report, in every other case \<^verbatim>\<open>main\<close> returns with the three lists.
\<close>

theorem exit_code_of_run:
  assumes "\<forall>file \<in> set (analysed_files fs path). \<exists>rs ds.
      find_unused_and_duplicate_imports_in_file iter frames file (read_and_parse fs file) = Inr (rs, ds)"
  shows "exit_code (main iter frames fs path) =
          (if (isdir fs path \<and> find_python_files_in_directory fs path = [])
              \<or> (\<not> isdir fs path \<and> \<not> isfile fs path) then 1 else 0)
       \<and> (isdir fs path \<and> find_python_files_in_directory fs path = [] \<longrightarrow>
            main iter frames fs path
              = Inr (SysExit 1 (''No Python files found in directory: '' @ path)))
       \<and> (\<not> isdir fs path \<and> \<not> isfile fs path \<longrightarrow>
            main iter frames fs path
              = Inr (SysExit 1 (''Error: '' @ [CHR 0x27] @ path @ [CHR 0x27]
                                 @ '' is not a valid file or directory.'')))
       \<and> (\<not> (isdir fs path \<and> find_python_files_in_directory fs path = [])
            \<and> \<not> (\<not> isdir fs path \<and> \<not> isfile fs path) \<longrightarrow>
            (\<exists>u d e. main iter frames fs path = Inr (Report u d e)))"
proof (cases "analysed_files fs path = []")
  case True
  then have "(isdir fs path \<and> find_python_files_in_directory fs path = [])
              \<or> (\<not> isdir fs path \<and> \<not> isfile fs path)"
    by (auto simp: analysed_files_def split: if_splits)
  then show ?thesis by (auto simp: main_def exit_code_def Let_def)
next
  case False
  then have n: "\<not> ((isdir fs path \<and> find_python_files_in_directory fs path = [])
              \<or> (\<not> isdir fs path \<and> \<not> isfile fs path))"
    by (auto simp: analysed_files_def split: if_splits)
  obtain u d e where "main iter frames fs path = Inr (Report u d e)"
    using main_returns[OF assms False] by blast
  with n show ?thesis by (auto simp: exit_code_def)
qed

theorem exit_code_of_run_witness:
  "analysed_files fs_project ''proj'' = [''proj/bad.py'', ''proj/good.py'']
   \<and> find_unused_and_duplicate_imports_in_file ascending cpython_frames ''proj/bad.py''
       (read_and_parse fs_project ''proj/bad.py'')
     = Inr ([[(''file'', PyStr ''proj/bad.py''), (''error'', PyStr ''SyntaxError: invalid syntax'')]], [])
   \<and> find_unused_and_duplicate_imports_in_file ascending cpython_frames ''proj/good.py''
       (read_and_parse fs_project ''proj/good.py'')
     = Inr ([[(''file'', PyStr ''proj/good.py''), (''line'', PyInt 2), (''import_statement'', PyStr ''import json'')]],
            [[(''file'', PyStr ''proj/good.py''), (''lines'', PyList [1, 2]), (''import_statement'', PyStr ''import json'')]])
   \<and> exit_code (main ascending cpython_frames fs_project ''proj'') = 0
   \<and> (\<exists>u d e. main ascending cpython_frames fs_project ''proj'' = Inr (Report u d e))
   \<and> exit_code (main ascending cpython_frames fs_project ''empty'') = 1
   \<and> exit_code (main ascending cpython_frames fs_project ''missing'') = 1"
proof -
  have a: "analysed_files fs_project ''proj'' = [''proj/bad.py'', ''proj/good.py'']"
    by (simp add: fs_project_def fs_defs)
  have b: "analysed_files fs_project ''empty'' = []" "analysed_files fs_project ''missing'' = []"
    by (simp_all add: fs_project_def fs_defs)
  have rb: "find_unused_and_duplicate_imports_in_file ascending cpython_frames ''proj/bad.py''
       (read_and_parse fs_project ''proj/bad.py'')
     = Inr ([[(''file'', PyStr ''proj/bad.py''), (''error'', PyStr ''SyntaxError: invalid syntax'')]], [])"
    by (simp add: fs_project_def error_record_def)
  have rg: "find_unused_and_duplicate_imports_in_file ascending cpython_frames ''proj/good.py''
       (read_and_parse fs_project ''proj/good.py'')
     = Inr ([[(''file'', PyStr ''proj/good.py''), (''line'', PyInt 2), (''import_statement'', PyStr ''import json'')]],
            [[(''file'', PyStr ''proj/good.py''), (''lines'', PyList [1, 2]), (''import_statement'', PyStr ''import json'')]])"
    by (simp add: fs_project_def two_json_def eval_defs)
  have p: "isdir fs_project ''proj''" "find_python_files_in_directory fs_project ''proj'' \<noteq> []"
    using a by (simp_all add: fs_project_def analysed_files_def)
  have e: "isdir fs_project ''empty''" "find_python_files_in_directory fs_project ''empty'' = []"
    using b(1) by (simp_all add: fs_project_def analysed_files_def)
  have m: "\<not> isdir fs_project ''missing''" "\<not> isfile fs_project ''missing''"
    by (simp_all add: fs_project_def)
  have hp: "\<forall>file \<in> set (analysed_files fs_project ''proj''). \<exists>rs ds.
      find_unused_and_duplicate_imports_in_file ascending cpython_frames file
        (read_and_parse fs_project file) = Inr (rs, ds)"
    unfolding a using rb rg by simp
  have he: "\<forall>file \<in> set (analysed_files fs_project ''empty''). \<exists>rs ds.
      find_unused_and_duplicate_imports_in_file ascending cpython_frames file
        (read_and_parse fs_project file) = Inr (rs, ds)"
    unfolding b by simp
  have hm: "\<forall>file \<in> set (analysed_files fs_project ''missing''). \<exists>rs ds.
      find_unused_and_duplicate_imports_in_file ascending cpython_frames file
        (read_and_parse fs_project file) = Inr (rs, ds)"
    unfolding b by simp
  have 1: "exit_code (main ascending cpython_frames fs_project ''proj'') = 0"
    using exit_code_of_run[OF hp] p by simp
  have 2: "\<exists>u d e. main ascending cpython_frames fs_project ''proj'' = Inr (Report u d e)"
    using exit_code_of_run[OF hp] p by blast
  have 3: "exit_code (main ascending cpython_frames fs_project ''empty'') = 1"
    using exit_code_of_run[OF he] e by (simp add: exit_code_def)
  have 4: "exit_code (main ascending cpython_frames fs_project ''missing'') = 1"
    using exit_code_of_run[OF hm] m by (simp add: exit_code_def)
  show ?thesis using a rb rg 1 2 3 4 by simp
qed

text \<open>
  C6 as stated fails: for a path that is a regular file whose bytes are not UTF-8 the
  \<^verbatim>\<open>UnicodeDecodeError\<close> leaves \<^verbatim>\<open>main\<close>, and the interpreter ends with status 1.
\<close>

theorem uncaught_exception_exits_with_1:
  "isfile fs_undecodable ''latin1.py''
   \<and> main ascending cpython_frames fs_undecodable ''latin1.py'' = Inl (UnicodeDecodeError ''invalid start byte'')
   \<and> exit_code (main ascending cpython_frames fs_undecodable ''latin1.py'') = 1"
  by (simp add: fs_undecodable_def main_def collect_file_def exit_code_def)

subsection \<open>A failing file in a directory\<close>

lemma analyzer_parsed_filters:
  assumes "find_unused_and_duplicate_imports_in_file iter frames f (Parsed tree) = Inr (rs, ds)"
  shows "filter (has_key ''import_statement'') rs = rs" and "filter (has_key ''error'') rs = []"
proof -
  from assms have "analyze_tree iter frames f tree = Inr (rs, ds)" by simp
  then have "\<forall>r \<in> set rs. \<exists>l s. r = unused_record f l s" by (rule analyze_tree_shape(1))
  then have "\<forall>r \<in> set rs. has_key ''import_statement'' r \<and> \<not> has_key ''error'' r" by auto
  then show "filter (has_key ''import_statement'') rs = rs" and "filter (has_key ''error'') rs = []"
    by (simp_all add: filter_empty_conv filter_id_conv)
qed

text \<open>
  C5, as the code has it: when the analyzer raises no exception on any Python file of the
  directory, the loop over the files runs to its end and the run reports what it has
  accumulated: the three accumulators hold, file after file, what each file contributes,
  and the three reported lists are permutations of them. A file that fails with
  \<^verbatim>\<open>SyntaxError\<close>, \<^verbatim>\<open>FileNotFoundError\<close> or \<^verbatim>\<open>PermissionError\<close> contributes exactly one
  record, to the errors, and nothing else; a file that parses and for which the analyzer
  returns contributes its unused and its duplicate findings and no error. So with one
  file that fails to parse and one clean file, the findings of the clean file are
  accumulated and reported and the errors are the one record of the failing file.
\<close>

theorem failing_file_does_not_stop_the_run:
  assumes "isdir fs path"
    and "find_python_files_in_directory fs path = files"
    and "files \<noteq> []"
    and "\<forall>file \<in> set files. \<exists>rs ds.
      find_unused_and_duplicate_imports_in_file iter frames file (read_and_parse fs file) = Inr (rs, ds)"
  shows "(\<exists>acc u d e.
            collect_files iter frames fs files no_findings = Inr acc
          \<and> all_unused acc = concat (map (\<lambda>file. fst (file_findings iter frames fs file)) files)
          \<and> all_duplicates acc
              = concat (map (\<lambda>file. fst (snd (file_findings iter frames fs file))) files)
          \<and> all_errors acc
              = concat (map (\<lambda>file. snd (snd (file_findings iter frames fs file))) files)
          \<and> main iter frames fs path = Inr (Report u d e)
          \<and> mset u = mset (all_unused acc)
          \<and> mset d = mset (all_duplicates acc)
          \<and> mset e = mset (all_errors acc))
       \<and> (\<forall>file msg. read_and_parse fs file = Raises (SyntaxError msg) \<longrightarrow>
             file_findings iter frames fs file
               = ([], [], [error_record file (''SyntaxError: '' @ msg)]))
       \<and> (\<forall>file msg. read_and_parse fs file = Raises (FileNotFoundError msg)
                      \<or> read_and_parse fs file = Raises (PermissionError msg) \<longrightarrow>
             file_findings iter frames fs file = ([], [], [error_record file msg]))
       \<and> (\<forall>file tree rs ds. read_and_parse fs file = Parsed tree
                      \<and> find_unused_and_duplicate_imports_in_file iter frames file (Parsed tree)
                          = Inr (rs, ds) \<longrightarrow>
             file_findings iter frames fs file = (rs, ds, []))"
proof (intro conjI allI impI)
  have af: "analysed_files fs path = files"
    using assms(1,2) by (simp add: analysed_files_def)
  have h: "\<forall>file \<in> set (analysed_files fs path). \<exists>rs ds.
      find_unused_and_duplicate_imports_in_file iter frames file (read_and_parse fs file) = Inr (rs, ds)"
    unfolding af by (rule assms(4))
  have ne: "analysed_files fs path \<noteq> []" unfolding af by (rule assms(3))
  obtain acc where acc: "collect_files iter frames fs files no_findings = Inr acc"
    and m: "main iter frames fs path = Inr (Report (sort_key unused_key (all_unused acc))
                (sort_key duplicate_key (all_duplicates acc)) (sort_key error_key (all_errors acc)))"
    using main_returns[OF h ne] unfolding af by blast
  have "acc = no_findings\<lparr>all_unused := all_unused no_findings
                  @ concat (map (\<lambda>file. fst (file_findings iter frames fs file)) files),
              all_duplicates := all_duplicates no_findings
                  @ concat (map (\<lambda>file. fst (snd (file_findings iter frames fs file))) files),
              all_errors := all_errors no_findings
                  @ concat (map (\<lambda>file. snd (snd (file_findings iter frames fs file))) files)\<rparr>"
    using acc unfolding collect_files_returns[OF assms(4)] by simp
  then have "all_unused acc = concat (map (\<lambda>file. fst (file_findings iter frames fs file)) files)"
    and "all_duplicates acc
              = concat (map (\<lambda>file. fst (snd (file_findings iter frames fs file))) files)"
    and "all_errors acc
              = concat (map (\<lambda>file. snd (snd (file_findings iter frames fs file))) files)"
    by (simp_all add: no_findings_def)
  with acc m show "\<exists>acc u d e.
            collect_files iter frames fs files no_findings = Inr acc
          \<and> all_unused acc = concat (map (\<lambda>file. fst (file_findings iter frames fs file)) files)
          \<and> all_duplicates acc
              = concat (map (\<lambda>file. fst (snd (file_findings iter frames fs file))) files)
          \<and> all_errors acc
              = concat (map (\<lambda>file. snd (snd (file_findings iter frames fs file))) files)
          \<and> main iter frames fs path = Inr (Report u d e)
          \<and> mset u = mset (all_unused acc)
          \<and> mset d = mset (all_duplicates acc)
          \<and> mset e = mset (all_errors acc)"
    by (intro exI[of _ acc] exI[of _ "sort_key unused_key (all_unused acc)"]
        exI[of _ "sort_key duplicate_key (all_duplicates acc)"]
        exI[of _ "sort_key error_key (all_errors acc)"]) simp
next
  fix fl msg
  assume "read_and_parse fs fl = Raises (SyntaxError msg)"
  then show "file_findings iter frames fs fl
               = ([], [], [error_record fl (''SyntaxError: '' @ msg)])"
    by (simp add: file_findings_def)
next
  fix fl msg
  assume "read_and_parse fs fl = Raises (FileNotFoundError msg)
                      \<or> read_and_parse fs fl = Raises (PermissionError msg)"
  then show "file_findings iter frames fs fl = ([], [], [error_record fl msg])"
    by (auto simp: file_findings_def)
next
  fix fl tree rs ds
  assume a: "read_and_parse fs fl = Parsed tree
                      \<and> find_unused_and_duplicate_imports_in_file iter frames fl (Parsed tree)
                          = Inr (rs, ds)"
  then have r: "find_unused_and_duplicate_imports_in_file iter frames fl (Parsed tree) = Inr (rs, ds)"
    by simp
  show "file_findings iter frames fs fl = (rs, ds, [])"
    using a analyzer_parsed_filters[OF r] by (simp add: file_findings_def)
qed

theorem failing_file_does_not_stop_the_run_witness:
  "isdir fs_project ''proj''
   \<and> find_python_files_in_directory fs_project ''proj'' = [''proj/bad.py'', ''proj/good.py'']
   \<and> read_and_parse fs_project ''proj/bad.py'' = Raises (SyntaxError ''invalid syntax'')
   \<and> read_and_parse fs_project ''proj/good.py'' = Parsed two_json
   \<and> find_unused_and_duplicate_imports_in_file ascending cpython_frames ''proj/good.py'' (Parsed two_json)
     = Inr ([[(''file'', PyStr ''proj/good.py''), (''line'', PyInt 2), (''import_statement'', PyStr ''import json'')]],
            [[(''file'', PyStr ''proj/good.py''), (''lines'', PyList [1, 2]), (''import_statement'', PyStr ''import json'')]])
   \<and> (\<exists>acc u d e.
          collect_files ascending cpython_frames fs_project [''proj/bad.py'', ''proj/good.py''] no_findings
            = Inr acc
        \<and> all_unused acc
            = [[(''file'', PyStr ''proj/good.py''), (''line'', PyInt 2), (''import_statement'', PyStr ''import json'')]]
        \<and> all_duplicates acc
            = [[(''file'', PyStr ''proj/good.py''), (''lines'', PyList [1, 2]), (''import_statement'', PyStr ''import json'')]]
        \<and> all_errors acc = [error_record ''proj/bad.py'' ''SyntaxError: invalid syntax'']
        \<and> main ascending cpython_frames fs_project ''proj'' = Inr (Report u d e)
        \<and> mset u = mset (all_unused acc)
        \<and> mset d = mset (all_duplicates acc)
        \<and> mset e = mset (all_errors acc))
   \<and> main ascending cpython_frames fs_project ''proj''
       = Inr (Report
           [[(''file'', PyStr ''proj/good.py''), (''line'', PyInt 2), (''import_statement'', PyStr ''import json'')]]
           [[(''file'', PyStr ''proj/good.py''), (''lines'', PyList [1, 2]), (''import_statement'', PyStr ''import json'')]]
           [[(''file'', PyStr ''proj/bad.py''), (''error'', PyStr ''SyntaxError: invalid syntax'')]])"
proof -
  let ?U = "[(''file'', PyStr ''proj/good.py''), (''line'', PyInt 2), (''import_statement'', PyStr ''import json'')]"
  let ?D = "[(''file'', PyStr ''proj/good.py''), (''lines'', PyList [1, 2]), (''import_statement'', PyStr ''import json'')]"
  have a: "isdir fs_project ''proj''" by (simp add: fs_project_def)
  have b: "find_python_files_in_directory fs_project ''proj'' = [''proj/bad.py'', ''proj/good.py'']"
    by (simp add: fs_project_def fs_defs)
  have c: "read_and_parse fs_project ''proj/bad.py'' = Raises (SyntaxError ''invalid syntax'')"
    by (simp add: fs_project_def)
  have d: "read_and_parse fs_project ''proj/good.py'' = Parsed two_json"
    by (simp add: fs_project_def)
  have g: "find_unused_and_duplicate_imports_in_file ascending cpython_frames ''proj/good.py'' (Parsed two_json)
     = Inr ([?U], [?D])"
    by (simp add: two_json_def eval_defs)
  have g': "analyze_tree ascending cpython_frames ''proj/good.py'' two_json = Inr ([?U], [?D])"
    using g by simp
  have h: "\<forall>file \<in> set [''proj/bad.py'', ''proj/good.py'']. \<exists>rs ds.
      find_unused_and_duplicate_imports_in_file ascending cpython_frames file
        (read_and_parse fs_project file) = Inr (rs, ds)"
    using g' by (simp add: c d)
  have fb: "file_findings ascending cpython_frames fs_project ''proj/bad.py''
      = ([], [], [error_record ''proj/bad.py'' ''SyntaxError: invalid syntax''])"
    by (simp add: file_findings_def c)
  have fg: "file_findings ascending cpython_frames fs_project ''proj/good.py'' = ([?U], [?D], [])"
    by (simp add: file_findings_def d g' has_key_def)
  have e: "\<exists>acc u d e.
          collect_files ascending cpython_frames fs_project [''proj/bad.py'', ''proj/good.py''] no_findings
            = Inr acc
        \<and> all_unused acc = [?U]
        \<and> all_duplicates acc = [?D]
        \<and> all_errors acc = [error_record ''proj/bad.py'' ''SyntaxError: invalid syntax'']
        \<and> main ascending cpython_frames fs_project ''proj'' = Inr (Report u d e)
        \<and> mset u = mset (all_unused acc)
        \<and> mset d = mset (all_duplicates acc)
        \<and> mset e = mset (all_errors acc)"
    using failing_file_does_not_stop_the_run[OF a b _ h]
    by (simp add: fb fg)
  have f: "main ascending cpython_frames fs_project ''proj'' = Inr (Report [?U] [?D]
           [[(''file'', PyStr ''proj/bad.py''), (''error'', PyStr ''SyntaxError: invalid syntax'')]])"
    by (simp add: main_def a b Let_def collect_file_def c d g' no_findings_def has_key_def
        error_record_def sort_findings_def sorted_py_def file_line_key_def file_lines_key_def
        file_key_def getitem_def)
  show ?thesis using a b c d g e f by simp
qed

text \<open>
  C5 as stated fails when the failure of the one file is not of a class the analyzer
  catches: in a directory with the clean file of \<open>two_json\<close> and a file that is not UTF-8,
  the clean file is analysed first and has two findings, then \<^verbatim>\<open>UnicodeDecodeError\<close>
  leaves the analyzer and the loop of lines 105 to 112, and the run ends without reporting
  anything.
\<close>

theorem undecodable_file_stops_the_run:
  "isdir fs_mixed ''proj''
   \<and> find_python_files_in_directory fs_mixed ''proj'' = [''proj/clean.py'', ''proj/latin1.py'']
   \<and> find_unused_and_duplicate_imports_in_file ascending cpython_frames ''proj/clean.py''
       (read_and_parse fs_mixed ''proj/clean.py'')
     = Inr ([[(''file'', PyStr ''proj/clean.py''), (''line'', PyInt 2), (''import_statement'', PyStr ''import json'')]],
            [[(''file'', PyStr ''proj/clean.py''), (''lines'', PyList [1, 2]), (''import_statement'', PyStr ''import json'')]])
   \<and> read_and_parse fs_mixed ''proj/latin1.py'' = Raises (UnicodeDecodeError ''invalid start byte'')
   \<and> main ascending cpython_frames fs_mixed ''proj'' = Inl (UnicodeDecodeError ''invalid start byte'')"
proof -
  have a: "isdir fs_mixed ''proj''" by (simp add: fs_mixed_def)
  have b: "find_python_files_in_directory fs_mixed ''proj'' = [''proj/clean.py'', ''proj/latin1.py'']"
    by (simp add: fs_mixed_def fs_defs)
  have c: "read_and_parse fs_mixed ''proj/clean.py'' = Parsed two_json"
    by (simp add: fs_mixed_def)
  have d: "read_and_parse fs_mixed ''proj/latin1.py'' = Raises (UnicodeDecodeError ''invalid start byte'')"
    by (simp add: fs_mixed_def)
  have g: "analyze_tree ascending cpython_frames ''proj/clean.py'' two_json
     = Inr ([[(''file'', PyStr ''proj/clean.py''), (''line'', PyInt 2), (''import_statement'', PyStr ''import json'')]],
            [[(''file'', PyStr ''proj/clean.py''), (''lines'', PyList [1, 2]), (''import_statement'', PyStr ''import json'')]])"
    by (simp add: two_json_def eval_defs)
  have m: "main ascending cpython_frames fs_mixed ''proj'' = Inl (UnicodeDecodeError ''invalid start byte'')"
    by (simp add: main_def a b Let_def collect_file_def c d g)
  show ?thesis using a b c d g m by simp
qed

subsection \<open>Two runs on the same input\<close>

lemma unused_results_map:
  "unused_results f al nms = Inr rs \<Longrightarrow>
     rs = map (\<lambda>nm. case al nm of Some (l, s) \<Rightarrow> unused_record f l s | None \<Rightarrow> []) nms"
proof (induction nms arbitrary: rs)
  case Nil
  then show ?case by simp
next
  case (Cons nm nms)
  from Cons.prems obtain l s rs' where a: "al nm = Some (l, s)"
    and b: "unused_results f al nms = Inr rs'" and c: "rs = unused_record f l s # rs'"
    by (auto split: option.splits sum.splits)
  show ?case unfolding c using a Cons.IH[OF b] by simp
qed

lemma unused_names_mset:
  assumes "set_iteration i1" and "set_iteration i2"
  shows "mset (unused_names i1 tree) = mset (unused_names i2 tree)"
  using unused_names_props[OF assms(1), of tree] unused_names_props[OF assms(2), of tree]
  by (simp add: set_eq_iff_mset_eq_distinct[symmetric])

lemma analyze_tree_two_orders:
  assumes "set_iteration i1" and "set_iteration i2"
  shows "(analyze_tree i1 frames f tree = Inl RecursionError
            \<and> analyze_tree i2 frames f tree = Inl RecursionError)
       \<or> (\<exists>rs1 rs2 ds. analyze_tree i1 frames f tree = Inr (rs1, ds)
           \<and> analyze_tree i2 frames f tree = Inr (rs2, ds) \<and> mset rs1 = mset rs2)"
proof (cases "frames_needed tree \<le> frames")
  case False
  then show ?thesis by (simp add: analyze_tree_deep)
next
  case True
  let ?al = "import_aliases (extract_imports tree)"
  let ?g = "\<lambda>nm. case ?al nm of Some (l, s) \<Rightarrow> unused_record f l s | None \<Rightarrow> []"
  let ?ds = "duplicate_results f (import_statements (extract_imports tree))"
  obtain rs1 where 1: "analyze_tree i1 frames f tree = Inr (rs1, ?ds)"
    using analyze_tree_result[OF assms(1) True, of f] by blast
  obtain rs2 where 2: "analyze_tree i2 frames f tree = Inr (rs2, ?ds)"
    using analyze_tree_result[OF assms(2) True, of f] by blast
  have "unused_results f ?al (unused_names i1 tree) = Inr rs1"
    by (rule analyze_tree_Inr(4)[OF 1])
  then have m1: "rs1 = map ?g (unused_names i1 tree)" by (rule unused_results_map)
  have "unused_results f ?al (unused_names i2 tree) = Inr rs2"
    by (rule analyze_tree_Inr(4)[OF 2])
  then have m2: "rs2 = map ?g (unused_names i2 tree)" by (rule unused_results_map)
  have "mset rs1 = mset rs2"
    unfolding m1 m2 mset_map unused_names_mset[OF assms] by simp
  with 1 2 show ?thesis by blast
qed

lemma analyzer_two_orders:
  assumes "set_iteration i1" and "set_iteration i2"
  shows "(\<exists>e. find_unused_and_duplicate_imports_in_file i1 frames f outcome = Inl e
            \<and> find_unused_and_duplicate_imports_in_file i2 frames f outcome = Inl e)
       \<or> (\<exists>rs1 rs2 ds. find_unused_and_duplicate_imports_in_file i1 frames f outcome = Inr (rs1, ds)
            \<and> find_unused_and_duplicate_imports_in_file i2 frames f outcome = Inr (rs2, ds)
            \<and> mset rs1 = mset rs2
            \<and> filter (has_key ''error'') rs1 = filter (has_key ''error'') rs2)"
proof (cases outcome)
  case (Parsed tree)
  from analyze_tree_two_orders[OF assms, of frames f tree]
  show ?thesis
  proof (elim disjE exE conjE)
    assume "analyze_tree i1 frames f tree = Inl RecursionError"
      and "analyze_tree i2 frames f tree = Inl RecursionError"
    then show ?thesis unfolding Parsed by simp
  next
    fix rs1 rs2 ds
    assume a: "analyze_tree i1 frames f tree = Inr (rs1, ds)"
      and b: "analyze_tree i2 frames f tree = Inr (rs2, ds)" and c: "mset rs1 = mset rs2"
    have "filter (has_key ''error'') rs1 = []" "filter (has_key ''error'') rs2 = []"
      using analyzer_parsed_filters(2)[of i1 frames f tree rs1 ds]
        analyzer_parsed_filters(2)[of i2 frames f tree rs2 ds] a b by simp_all
    with a b c Parsed show ?thesis by simp
  qed
next
  case (Raises e)
  have same: "find_unused_and_duplicate_imports_in_file i1 frames f (Raises e)
      = find_unused_and_duplicate_imports_in_file i2 frames f (Raises e)"
    by (cases e) simp_all
  show ?thesis
  proof (cases "find_unused_and_duplicate_imports_in_file i1 frames f (Raises e)")
    case (Inl x)
    then have "find_unused_and_duplicate_imports_in_file i2 frames f (Raises e) = Inl x"
      using same by metis
    with Inl show ?thesis unfolding Raises by blast
  next
    case (Inr p)
    obtain rs ds where p: "p = (rs, ds)" by (cases p)
    from Inr have 1: "find_unused_and_duplicate_imports_in_file i1 frames f (Raises e) = Inr (rs, ds)"
      unfolding p .
    then have 2: "find_unused_and_duplicate_imports_in_file i2 frames f (Raises e) = Inr (rs, ds)"
      using same by metis
    from 1 2 show ?thesis unfolding Raises by blast
  qed
qed

lemma collect_file_two_orders:
  assumes "set_iteration i1" and "set_iteration i2" and "same_findings a b"
  shows "(\<exists>e. collect_file i1 frames fs f a = Inl e \<and> collect_file i2 frames fs f b = Inl e)
       \<or> (\<exists>a' b'. collect_file i1 frames fs f a = Inr a' \<and> collect_file i2 frames fs f b = Inr b'
            \<and> same_findings a' b')"
  using analyzer_two_orders[OF assms(1,2), where f = f and outcome = "read_and_parse fs f" and frames = frames]
proof (elim disjE exE conjE)
  fix e
  assume "find_unused_and_duplicate_imports_in_file i1 frames f (read_and_parse fs f) = Inl e"
    and "find_unused_and_duplicate_imports_in_file i2 frames f (read_and_parse fs f) = Inl e"
  then show ?thesis by (simp add: collect_file_Inl)
next
  fix rs1 rs2 ds
  assume 1: "find_unused_and_duplicate_imports_in_file i1 frames f (read_and_parse fs f) = Inr (rs1, ds)"
    and 2: "find_unused_and_duplicate_imports_in_file i2 frames f (read_and_parse fs f) = Inr (rs2, ds)"
    and m: "mset rs1 = mset rs2"
    and e: "filter (has_key ''error'') rs1 = filter (has_key ''error'') rs2"
  have "mset (filter (has_key ''import_statement'') rs1)
      = mset (filter (has_key ''import_statement'') rs2)"
    by (simp add: m)
  with assms(3) e show ?thesis
    unfolding collect_file_Inr[OF 1] collect_file_Inr[OF 2]
    by (simp add: same_findings_def)
qed

lemma collect_files_two_orders:
  assumes "set_iteration i1" and "set_iteration i2"
  shows "same_findings a b \<Longrightarrow>
         (\<exists>e. collect_files i1 frames fs files a = Inl e \<and> collect_files i2 frames fs files b = Inl e)
       \<or> (\<exists>a' b'. collect_files i1 frames fs files a = Inr a' \<and> collect_files i2 frames fs files b = Inr b'
            \<and> same_findings a' b')"
proof (induction files arbitrary: a b)
  case Nil
  then show ?case by simp
next
  case (Cons f files)
  from collect_file_two_orders[OF assms Cons.prems, where fs = fs and f = f and frames = frames]
  show ?case
  proof (elim disjE exE conjE)
    fix e
    assume "collect_file i1 frames fs f a = Inl e" "collect_file i2 frames fs f b = Inl e"
    then show ?thesis by simp
  next
    fix a' b'
    assume "collect_file i1 frames fs f a = Inr a'" "collect_file i2 frames fs f b = Inr b'"
      and "same_findings a' b'"
    then show ?thesis using Cons.IH[of a' b'] by simp
  qed
qed

lemma main_no_files:
  assumes "analysed_files fs path = []"
  shows "\<exists>c m. main i1 frames fs path = Inr (SysExit c m) \<and> main i2 frames fs path = Inr (SysExit c m)"
proof -
  from assms have "(isdir fs path \<and> find_python_files_in_directory fs path = [])
              \<or> (\<not> isdir fs path \<and> \<not> isfile fs path)"
    by (auto simp: analysed_files_def split: if_splits)
  then show ?thesis by (auto simp: main_def Let_def)
qed

lemma sort_equal_for_distinct_keys:
  assumes "mset xs = mset ys" and "distinct (map k (sort_key k xs))"
  shows "sort_key k ys = sort_key k xs"
proof (rule sort_key_inj_key_eq)
  show "mset ys = mset (sort_key k xs)" using assms(1) by simp
  have "inj_on k (set (sort_key k xs))" using assms(2) by (simp add: distinct_map)
  moreover have "set ys = set xs" using assms(1) by (metis mset_eq_setD)
  ultimately show "inj_on k (set ys)" by simp
  show "sorted (map k (sort_key k xs))" by simp
qed

text \<open>
  C9, as the code has it: two runs on the same input, with the same room on the call stack
  and each with its own iteration order of the sets, end the same way (the same exception, the same \<^verbatim>\<open>sys.exit\<close>, or a report);
  their reports have the same duplicate and error lists in the same order and the same
  unused findings, and the unused lists are in the same order whenever no two unused
  findings have the same file and line. The final sort is stable and its key is the file
  and the line only, so findings with the same file and line stay in the order of the set.
\<close>

theorem runs_agree_up_to_order_of_ties:
  assumes "set_iteration i1" and "set_iteration i2"
  shows "case main i1 frames fs path of
           Inl x \<Rightarrow> main i2 frames fs path = Inl x
         | Inr (SysExit c m) \<Rightarrow> main i2 frames fs path = Inr (SysExit c m)
         | Inr (Report u1 d e) \<Rightarrow>
             (\<exists>u2. main i2 frames fs path = Inr (Report u2 d e) \<and> mset u2 = mset u1
                 \<and> (distinct (map file_line_key u1) \<longrightarrow> u2 = u1))"
proof (cases "analysed_files fs path = []")
  case True
  then show ?thesis using main_no_files[OF True, where ?i1.0 = i1 and ?i2.0 = i2 and frames = frames] by auto
next
  case False
  have s: "same_findings no_findings no_findings" by (simp add: same_findings_def)
  from collect_files_two_orders[OF assms s, where fs = fs and files = "analysed_files fs path" and frames = frames]
  show ?thesis
  proof (elim disjE exE conjE)
    fix e
    assume "collect_files i1 frames fs (analysed_files fs path) no_findings = Inl e"
      "collect_files i2 frames fs (analysed_files fs path) no_findings = Inl e"
    then show ?thesis by (simp add: main_as_collect_files[OF False])
  next
    fix a b
    assume a: "collect_files i1 frames fs (analysed_files fs path) no_findings = Inr a"
      and b: "collect_files i2 frames fs (analysed_files fs path) no_findings = Inr b"
      and ab: "same_findings a b"
    have wa: "well_shaped a" by (rule collect_files_well_shaped[OF a well_shaped_no_findings])
    have wb: "well_shaped b" by (rule collect_files_well_shaped[OF b well_shaped_no_findings])
    let ?u1 = "sort_key unused_key (all_unused a)"
    let ?u2 = "sort_key unused_key (all_unused b)"
    let ?d = "sort_key duplicate_key (all_duplicates a)"
    let ?e = "sort_key error_key (all_errors a)"
    have m1: "main i1 frames fs path = Inr (Report ?u1 ?d ?e)"
      by (simp add: main_as_collect_files[OF False] a sort_findings_well_shaped[OF wa])
    have m2: "main i2 frames fs path = Inr (Report ?u2 ?d ?e)"
      using ab by (simp add: main_as_collect_files[OF False] b sort_findings_well_shaped[OF wb]
          same_findings_def)
    have ms: "mset ?u2 = mset ?u1" using ab by (simp add: same_findings_def)
    have "?u2 = ?u1" if dk: "distinct (map file_line_key ?u1)"
    proof -
      have "\<forall>r \<in> set ?u1. file_line_key r = Inr (unused_key r)"
        using wa by (auto simp: well_shaped_def list_all_iff file_line_key_unused)
      then have "map file_line_key ?u1 = map (\<lambda>r. Inr (unused_key r)) ?u1" by simp
      with dk have "distinct (map (Inr \<circ> unused_key) ?u1 :: (exn + string \<times> int) list)"
        by (simp add: comp_def)
      then have "distinct ?u1" and "inj_on unused_key (set ?u1)"
        by (auto simp: distinct_map dest: inj_on_imageI2)
      then have "distinct (map unused_key ?u1)" by (simp add: distinct_map)
      moreover have "mset (all_unused a) = mset (all_unused b)"
        using ab by (simp add: same_findings_def)
      ultimately show ?thesis by (rule sort_equal_for_distinct_keys[rotated])
    qed
    with m1 m2 ms show ?thesis by simp
  qed
qed


lemmas run_defs = main_def fs_single_def collect_file_def no_findings_def has_key_def
  sort_findings_def sorted_py_def file_line_key_def file_lines_key_def file_key_def getitem_def

theorem runs_agree_up_to_order_of_ties_witness:
  "set_iteration ascending \<and> set_iteration descending
   \<and> main ascending cpython_frames (fs_single os_and_alias) ''m.py''
       = Inr (Report
           [[(''file'', PyStr ''m.py''), (''line'', PyInt 1), (''import_statement'', PyStr ''import os'')],
            [(''file'', PyStr ''m.py''), (''line'', PyInt 2), (''import_statement'', PyStr ''import os as o'')]]
           [] [])
   \<and> distinct (map file_line_key
           [[(''file'', PyStr ''m.py''), (''line'', PyInt 1), (''import_statement'', PyStr ''import os'')],
            [(''file'', PyStr ''m.py''), (''line'', PyInt 2), (''import_statement'', PyStr ''import os as o'')]])
   \<and> main descending cpython_frames (fs_single os_and_alias) ''m.py''
       = Inr (Report
           [[(''file'', PyStr ''m.py''), (''line'', PyInt 1), (''import_statement'', PyStr ''import os'')],
            [(''file'', PyStr ''m.py''), (''line'', PyInt 2), (''import_statement'', PyStr ''import os as o'')]]
           [] [])"
proof -
  have a: "analyze_tree ascending cpython_frames ''m.py'' os_and_alias
     = Inr ([[(''file'', PyStr ''m.py''), (''line'', PyInt 2), (''import_statement'', PyStr ''import os as o'')],
             [(''file'', PyStr ''m.py''), (''line'', PyInt 1), (''import_statement'', PyStr ''import os'')]], [])"
    by (simp add: os_and_alias_def eval_defs)
  have m: "main ascending cpython_frames (fs_single os_and_alias) ''m.py''
       = Inr (Report
           [[(''file'', PyStr ''m.py''), (''line'', PyInt 1), (''import_statement'', PyStr ''import os'')],
            [(''file'', PyStr ''m.py''), (''line'', PyInt 2), (''import_statement'', PyStr ''import os as o'')]]
           [] [])"
    by (simp add: run_defs a)
  have d: "distinct (map file_line_key
           [[(''file'', PyStr ''m.py''), (''line'', PyInt 1), (''import_statement'', PyStr ''import os'')],
            [(''file'', PyStr ''m.py''), (''line'', PyInt 2), (''import_statement'', PyStr ''import os as o'')]])"
    by (simp add: file_line_key_def file_key_def getitem_def)
  show ?thesis
    using runs_agree_up_to_order_of_ties[OF set_iteration_ascending set_iteration_descending,
        where fs = "fs_single os_and_alias" and path = "''m.py''" and frames = cpython_frames]
      set_iteration_ascending set_iteration_descending d
    unfolding m by simp
qed

text \<open>
  C9 as stated fails for \<^verbatim>\<open>import a, b\<close> with neither name used: both findings have line 1,
  and the two iteration orders of the set give the two orders of the findings in the sorted
  output.
\<close>

theorem order_of_ties_follows_set_iteration:
  "set_iteration ascending \<and> set_iteration descending
   \<and> main ascending cpython_frames (fs_single import_a_b) ''m.py''
       = Inr (Report
           [[(''file'', PyStr ''m.py''), (''line'', PyInt 1), (''import_statement'', PyStr ''import a'')],
            [(''file'', PyStr ''m.py''), (''line'', PyInt 1), (''import_statement'', PyStr ''import b'')]]
           [] [])
   \<and> main descending cpython_frames (fs_single import_a_b) ''m.py''
       = Inr (Report
           [[(''file'', PyStr ''m.py''), (''line'', PyInt 1), (''import_statement'', PyStr ''import b'')],
            [(''file'', PyStr ''m.py''), (''line'', PyInt 1), (''import_statement'', PyStr ''import a'')]]
           [] [])"
proof -
  have a: "analyze_tree ascending cpython_frames ''m.py'' import_a_b
     = Inr ([[(''file'', PyStr ''m.py''), (''line'', PyInt 1), (''import_statement'', PyStr ''import a'')],
             [(''file'', PyStr ''m.py''), (''line'', PyInt 1), (''import_statement'', PyStr ''import b'')]], [])"
    by (simp add: import_a_b_def eval_defs)
  have b: "analyze_tree descending cpython_frames ''m.py'' import_a_b
     = Inr ([[(''file'', PyStr ''m.py''), (''line'', PyInt 1), (''import_statement'', PyStr ''import b'')],
             [(''file'', PyStr ''m.py''), (''line'', PyInt 1), (''import_statement'', PyStr ''import a'')]], [])"
    by (simp add: import_a_b_def eval_defs)
  show ?thesis
    using set_iteration_ascending set_iteration_descending
    by (simp add: run_defs a b)
qed

end
